theory Spec2Isabelle
  imports Main
begin

section \<open>Tic-tac-toe session plugin (src/app/app.ts)\<close>

text \<open>
  A shallow embedding of the class \<open>TicTacToe\<close>. JavaScript numbers that hold whole
  numbers are \<open>int\<close>; \<open>undefined\<close> is \<open>None\<close>; a thrown \<open>TypeError\<close> (reading a property
  of \<open>undefined\<close>) is a value of type \<open>error\<close>. Every handler returns the session state
  it leaves behind, the effects it issued in program order, and the exception it threw,
  if any: an exception does not roll back the assignments made before it.
\<close>

subsection \<open>JavaScript arrays, strings and numbers\<close>

datatype error = TypeError

definition isDefined :: "'a option \<Rightarrow> bool" where
  "isDefined v \<longleftrightarrow> v \<noteq> None"

text \<open>\<open>xs[i]\<close>: an index outside the array reads \<open>undefined\<close>.\<close>

definition js_get :: "'a list \<Rightarrow> int \<Rightarrow> 'a option" where
  "js_get xs i = (if 0 \<le> i \<and> i < int (length xs) then Some (xs ! nat i) else None)"

text \<open>
  \<open>xs[i] = v\<close> on an array whose elements may be \<open>undefined\<close>: an index at or past the
  end lengthens the array, the holes reading \<open>undefined\<close>. A negative index sets a
  property that is no element; the elements stay as they are.
\<close>

definition js_set :: "'a option list \<Rightarrow> int \<Rightarrow> 'a option \<Rightarrow> 'a option list" where
  "js_set xs i v =
     (if i < 0 then xs
      else if i < int (length xs) then xs[nat i := v]
      else xs @ replicate (nat i - length xs) None @ [v])"

text \<open>\<open>xs.indexOf(x)\<close>: the first position of \<open>x\<close>, or \<open>-1\<close>.\<close>

primrec indexOf :: "'a list \<Rightarrow> 'a \<Rightarrow> int" where
  "indexOf [] x = - 1"
| "indexOf (y # ys) x =
     (if y = x then 0 else (let i = indexOf ys x in if i = - 1 then - 1 else i + 1))"

text \<open>\<open>xs.splice(i, 1)\<close> for an index \<open>i\<close> that \<open>indexOf\<close> returned.\<close>

definition splice1 :: "'a list \<Rightarrow> int \<Rightarrow> 'a list" where
  "splice1 xs i = take (nat i) xs @ drop (nat i + 1) xs"

text \<open>
  \<open>parseInt(str)\<close> with no radix: leading white space is skipped, then an optional sign,
  then an optional \<open>0x\<close> prefix that selects radix 16, then the longest run of digits of
  the radix. No digit at all gives \<open>NaN\<close>, here \<open>None\<close>. The value is kept as a
  mathematical integer (the rounding of very long digit strings to a double does not
  change how the value compares with 0 and 8, which is all the program does with it;
  \<open>-0\<close> is 0). White space is the part of the ECMAScript set below 256: tab, line
  feed, vertical tab, form feed, carriage return, space and the no-break space.
\<close>

definition isWhiteSpace :: "char \<Rightarrow> bool" where
  "isWhiteSpace c \<longleftrightarrow>
     c \<in> {CHR 0x09, CHR 0x0A, CHR 0x0B, CHR 0x0C, CHR 0x0D, CHR '' '', CHR 0xA0}"

definition digitValue :: "char \<Rightarrow> nat option" where
  "digitValue c =
     (let n = of_char c :: nat in
      if 48 \<le> n \<and> n \<le> 57 then Some (n - 48)
      else if 97 \<le> n \<and> n \<le> 122 then Some (n - 87)
      else if 65 \<le> n \<and> n \<le> 90 then Some (n - 55)
      else None)"

definition isRadixDigit :: "nat \<Rightarrow> char \<Rightarrow> bool" where
  "isRadixDigit R c = (case digitValue c of None \<Rightarrow> False | Some d \<Rightarrow> d < R)"

definition radixValue :: "nat \<Rightarrow> string \<Rightarrow> nat" where
  "radixValue R Z = foldl (\<lambda>a c. a * R + (case digitValue c of None \<Rightarrow> 0 | Some d \<Rightarrow> d)) 0 Z"

definition parseDigits :: "int \<Rightarrow> nat \<Rightarrow> string \<Rightarrow> int option" where
  "parseDigits sign R S =
     (let Z = takeWhile (isRadixDigit R) S
      in if Z = [] then None else Some (sign * int (radixValue R Z)))"

fun stripPrefix :: "int \<Rightarrow> string \<Rightarrow> int option" where
  "stripPrefix sign (a # b # S) =
     (if a = CHR ''0'' \<and> (b = CHR ''x'' \<or> b = CHR ''X'') then parseDigits sign 16 S
      else parseDigits sign 10 (a # b # S))"
| "stripPrefix sign S = parseDigits sign 10 S"

fun parseSign :: "string \<Rightarrow> int option" where
  "parseSign (c # S) =
     (if c = CHR ''-'' then stripPrefix (- 1) S
      else if c = CHR ''+'' then stripPrefix 1 S
      else stripPrefix 1 (c # S))"
| "parseSign [] = stripPrefix 1 []"

definition parseInt :: "string \<Rightarrow> int option" where
  "parseInt str = parseSign (dropWhile isWhiteSpace str)"

text \<open>\<open>n.toString()\<close> for a whole number: decimal digits, a minus sign when negative.\<close>

function toString_nat :: "nat \<Rightarrow> string" where
  "toString_nat n =
     (if n < 10 then [char_of (48 + n)]
      else toString_nat (n div 10) @ [char_of (48 + n mod 10)])"
  by pat_completeness auto
termination
  by (relation "measure (\<lambda>n. n)") auto

declare toString_nat.simps [simp del]

definition toString :: "int \<Rightarrow> string" where
  "toString i = (if i < 0 then CHR ''-'' # toString_nat (nat (- i)) else toString_nat (nat i))"

subsection \<open>Data of the messaging host\<close>

record GameUser =
  user_id :: string

record MessageDescriptor =
  md_channelId :: string
  md_messageId :: string

datatype ButtonStyle = Primary | Secondary | Success

text \<open>
  The identity of a control is a string. The one identity the program takes from the
  host library, \<open>SystemButtonIds.LEAVE_SESSION\<close>, is declared outside this repository
  and stays symbolic.
\<close>

datatype ControlId = Id string | LEAVE_SESSION

record Button =
  style :: ButtonStyle
  label :: "string option"
  emoji :: "string option"
  custom_id :: ControlId
  disabled :: "bool option"

definition LEAVE_BUTTON :: Button where
  "LEAVE_BUTTON =
     \<lparr>style = Primary, label = Some ''Leave game'', emoji = None,
      custom_id = LEAVE_SESSION, disabled = None\<rparr>"

text \<open>An \<open>ActionRow\<close> is the list of its \<open>components\<close>.\<close>

type_synonym ActionRow = "Button list"

record MessageOptions =
  components :: "ActionRow list option"
  allowedMentions :: "string list option"

subsection \<open>The session state\<close>

record SaveBundle =
  started :: bool
  stale :: bool
  channelId :: string
  gameBoardMessageDescriptor :: "MessageDescriptor option"
  currentPlayerIndex :: "int option"
  lastTurnMessageId :: "string option"
  acceptSelection :: bool
  possibleTurnsCount :: int
  gameSize :: int
  players :: "GameUser list"
  boardStates :: "int option list list"
  playerIcons :: "string option \<times> string option"

text \<open>
  \<open>boardStates[row][index]\<close>: a missing row is \<open>undefined\<close>, and reading an element of
  it throws; a missing element of a row that exists reads \<open>undefined\<close>.
\<close>

definition cell :: "int option list list \<Rightarrow> int \<Rightarrow> int \<Rightarrow> error + int option" where
  "cell b row index =
     (case js_get b row of
        None \<Rightarrow> Inl TypeError
      | Some r \<Rightarrow> Inr (case js_get r index of None \<Rightarrow> None | Some c \<Rightarrow> c))"

subsection \<open>checkForWin\<close>

text \<open>
  \<open>isDefined(a) && a === b && b === c\<close>, the operands read from left to right and only
  as far as the conjunction needs them.
\<close>

definition sameOwner ::
  "(error + int option) \<Rightarrow> (error + int option) \<Rightarrow> (error + int option) \<Rightarrow> error + bool" where
  "sameOwner a b c =
     (case a of
        Inl e \<Rightarrow> Inl e
      | Inr x \<Rightarrow>
          if \<not> isDefined x then Inr False
          else (case b of
                  Inl e \<Rightarrow> Inl e
                | Inr y \<Rightarrow>
                    if x \<noteq> y then Inr False
                    else (case c of Inl e \<Rightarrow> Inl e | Inr z \<Rightarrow> Inr (y = z))))"

text \<open>The two diagonal tests, which follow the scan of the columns.\<close>

definition checkDiagonals :: "SaveBundle \<Rightarrow> error + int list option" where
  "checkDiagonals s =
     (let b = boardStates s; g = gameSize s in
      case sameOwner (cell b 0 0) (cell b 1 1) (cell b 2 2) of
        Inl e \<Rightarrow> Inl e
      | Inr w \<Rightarrow>
          if w then Inr (Some [0, g + 1, 2 * g + 2])
          else (case sameOwner (cell b 2 0) (cell b 1 1) (cell b 0 2) of
                  Inl e \<Rightarrow> Inl e
                | Inr w' \<Rightarrow> if w' then Inr (Some [2 * g, g + 1, g - 1]) else Inr None))"

text \<open>The scan of the columns, from \<open>colIndex\<close> on.\<close>

function checkColumns :: "SaveBundle \<Rightarrow> int \<Rightarrow> error + int list option" where
  "checkColumns s colIndex =
     (let b = boardStates s; g = gameSize s in
      if colIndex < g then
        (case sameOwner (cell b 0 colIndex) (cell b 1 colIndex) (cell b 2 colIndex) of
           Inl e \<Rightarrow> Inl e
         | Inr w \<Rightarrow>
             if w then Inr (Some [colIndex, colIndex + g, colIndex + 2 * g])
             else checkColumns s (colIndex + 1))
      else checkDiagonals s)"
  by pat_completeness auto
termination
  by (relation "measure (\<lambda>(s, colIndex). nat (gameSize s - colIndex))") auto

declare checkColumns.simps [simp del]

text \<open>The scan of the rows, from \<open>rowIndex\<close> on.\<close>

function checkRows :: "SaveBundle \<Rightarrow> int \<Rightarrow> error + int list option" where
  "checkRows s rowIndex =
     (let b = boardStates s; g = gameSize s in
      if rowIndex < g then
        (case sameOwner (cell b rowIndex 0) (cell b rowIndex 1) (cell b rowIndex 2) of
           Inl e \<Rightarrow> Inl e
         | Inr w \<Rightarrow>
             if w then Inr (Some [rowIndex * g, rowIndex * g + 1, rowIndex * g + 2])
             else checkRows s (rowIndex + 1))
      else checkColumns s 0)"
  by pat_completeness auto
termination
  by (relation "measure (\<lambda>(s, rowIndex). nat (gameSize s - rowIndex))") auto

declare checkRows.simps [simp del]

text \<open>\<open>None\<close> is the \<open>undefined\<close> the function returns when it falls off its end.\<close>

definition checkForWin :: "SaveBundle \<Rightarrow> error + int list option" where
  "checkForWin s = checkRows s 0"

subsection \<open>Requests to the host and what follows them\<close>

text \<open>
  One constructor for each method of \<open>discordApi\<close> the program calls, with the
  arguments in the order of the call. A message id handed to \<open>deleteMessage\<close> comes
  from an optional field behind a non-null assertion, so it may be \<open>undefined\<close>.
\<close>

datatype request =
    CreateChannel string
  | SendPrivateMessage string string
  | AddUserToChannel string string bool
  | SendMessage string string "MessageOptions option"
  | DeleteMessage string "string option"
  | RemoveUserFromChannel string string
  | ReplaceControl string string string Button
  | EditMessage string string string MessageOptions

text \<open>
  The callback attached with \<open>.then\<close> to the promise of a request, by the place in the
  source where it is attached. \<open>Done\<close> is a request nobody waits for. The callback of
  \<open>TurnNotification_sent\<close> includes the one both callers of \<open>sendTurnNotification\<close>
  chain after it, \<open>() => this.state.acceptSelection = true\<close>.
\<close>

datatype continuation =
    Done
  | StartGame_boardSent
  | TurnNotification_retracted
  | TurnNotification_sent
  | Notice_sent
  | UserTurn_replaced
  | Draw_retracted
  | Win_retracted "int list"
  | Win_edited "int list"

text \<open>
  What a handler does to the outside, in program order: a request with its callback, a
  line on the diagnostic log (\<open>console.warn\<close>), a request put off by \<open>setTimeout\<close>.
\<close>

datatype effect =
    Call request continuation
  | Warn string
  | SetTimeout request int

type_synonym outcome = "SaveBundle \<times> effect list \<times> error option"

subsection \<open>Rendering the board\<close>

text \<open>
  \<open>playerIcons[selection]\<close>: the table has the keys 0 and 1 only, and the value at a
  key is \<open>undefined\<close> when the constructor found no such icon in its argument.
\<close>

definition iconOf :: "string option \<times> string option \<Rightarrow> int \<Rightarrow> string option" where
  "iconOf icons selection =
     (if selection = 0 then fst icons
      else if selection = 1 then snd icons
      else None)"

text \<open>
  The second component is the optional flag of the returned tuple. The length of a
  string counts its elements, which stand for the UTF-16 units \<open>icon.length\<close> counts.
  Reading \<open>icon.length\<close> of an icon that is \<open>undefined\<close> throws.
\<close>

definition getCellIcon :: "SaveBundle \<Rightarrow> int \<Rightarrow> int \<Rightarrow> error + (string \<times> bool option)" where
  "getCellIcon s row index =
     (case cell (boardStates s) row index of
        Inl e \<Rightarrow> Inl e
      | Inr None \<Rightarrow> Inr ('' '', None)
      | Inr (Some selection) \<Rightarrow>
          (case iconOf (playerIcons s) selection of
             None \<Rightarrow> Inl TypeError
           | Some icon \<Rightarrow> Inr (icon, Some (length icon > 1))))"

text \<open>
  The optional parameter \<open>disabled\<close> is only tested for truth, so \<open>undefined\<close> is
  \<open>False\<close>. The second read of the cell happens only when \<open>disabled\<close> is false, and
  cannot throw after the first one succeeded.
\<close>

definition buildButton :: "SaveBundle \<Rightarrow> int \<Rightarrow> int \<Rightarrow> bool \<Rightarrow> error + Button" where
  "buildButton s rowIndex index dis =
     (case getCellIcon s rowIndex index of
        Inl e \<Rightarrow> Inl e
      | Inr (icon, useEmoji) \<Rightarrow>
          Inr \<lparr>style = Secondary,
               label = (if useEmoji = Some True then None else Some icon),
               emoji = (if useEmoji = Some True then Some icon else None),
               custom_id = Id (toString (rowIndex * gameSize s + index)),
               disabled =
                 Some (dis \<or> (case cell (boardStates s) rowIndex index of
                                 Inl e \<Rightarrow> False
                               | Inr selection \<Rightarrow> isDefined selection))\<rparr>)"

text \<open>The inner loop of \<open>buildTicTacToe\<close>: the buttons of one row, from \<open>index\<close> on.\<close>

function buildButtons :: "SaveBundle \<Rightarrow> int \<Rightarrow> int \<Rightarrow> bool \<Rightarrow> error + Button list" where
  "buildButtons s rowIndex index dis =
     (if index < gameSize s then
        (case buildButton s rowIndex index dis of
           Inl e \<Rightarrow> Inl e
         | Inr button \<Rightarrow>
             (case buildButtons s rowIndex (index + 1) dis of
                Inl e \<Rightarrow> Inl e
              | Inr buttons \<Rightarrow> Inr (button # buttons)))
      else Inr [])"
  by pat_completeness auto
termination
  by (relation "measure (\<lambda>(s, rowIndex, index, dis). nat (gameSize s - index))") auto

declare buildButtons.simps [simp del]

text \<open>The outer loop: the rows from \<open>rowIndex\<close> on.\<close>

function buildRows :: "SaveBundle \<Rightarrow> int \<Rightarrow> bool \<Rightarrow> error + ActionRow list" where
  "buildRows s rowIndex dis =
     (if rowIndex < gameSize s then
        (case buildButtons s rowIndex 0 dis of
           Inl e \<Rightarrow> Inl e
         | Inr buttons \<Rightarrow>
             (case buildRows s (rowIndex + 1) dis of
                Inl e \<Rightarrow> Inl e
              | Inr rows \<Rightarrow> Inr (buttons # rows)))
      else Inr [])"
  by pat_completeness auto
termination
  by (relation "measure (\<lambda>(s, rowIndex, dis). nat (gameSize s - rowIndex))") auto

declare buildRows.simps [simp del]

definition buildTicTacToe :: "SaveBundle \<Rightarrow> bool \<Rightarrow> error + ActionRow list" where
  "buildTicTacToe s dis = buildRows s 0 dis"

text \<open>
  \<open>Math.floor(buttonId / gameSize)\<close> and the remainder. With \<open>gameSize = 0\<close> the
  quotient is infinite or \<open>NaN\<close>, here \<open>None\<close>: no array has an element there.
\<close>

definition getCoordFromIndex :: "SaveBundle \<Rightarrow> int \<Rightarrow> (int \<times> int) option" where
  "getCoordFromIndex s buttonId =
     (if gameSize s = 0 then None
      else (let rowIndex = buttonId div gameSize s
            in Some (rowIndex, buttonId - rowIndex * gameSize s)))"

subsection \<open>Message texts\<close>

definition mention :: "string \<Rightarrow> string" where
  "mention uid = ''<@'' @ uid @ ''>''"

definition alreadyStartedText :: string where
  "alreadyStartedText = ''The game was already started - no new joins allowed.''"

definition alreadyFinishedText :: string where
  "alreadyFinishedText = ''The game was already finished - no new joins allowed.''"

definition waitingText :: "string \<Rightarrow> string" where
  "waitingText uid = mention uid @ '' joined the game.\<newline>Waiting for one more player...''"

definition startingText :: "string \<Rightarrow> string" where
  "startingText uid = mention uid @ '' joined the game.\<newline>Starting game...''"

definition leftText :: "string \<Rightarrow> string" where
  "leftText uid =
     ''User '' @ mention uid
     @ '' has left the game.\<newline>This game session become stale.\<newline>Leave the session.''"

definition yourTurnText :: "string \<Rightarrow> string" where
  "yourTurnText uid = mention uid @ '', it's your turn!''"

definition notYourTurnText :: "string \<Rightarrow> string" where
  "notYourTurnText uid = mention uid @ '', it's not your turn now.''"

definition alreadyChoseText :: "string \<Rightarrow> string" where
  "alreadyChoseText uid = mention uid @ '', you already made your choise.''"

definition wrongTurnText :: string where
  "wrongTurnText = ''Wrong turn - that cell was already selected.''"

definition drawText :: string where
  "drawText = ''The game was ended in a draw.\<newline>Leave the session''"

definition wonText :: "string \<Rightarrow> string" where
  "wonText uid = ''User '' @ mention uid @ '' won the game!\<newline>Game over.\<newline>Leave the session''"

text \<open>A value inside a template literal: \<open>undefined\<close> is spelled out.\<close>

definition interpolate :: "string option \<Rightarrow> string" where
  "interpolate v = (case v of None \<Rightarrow> ''undefined'' | Some str \<Rightarrow> str)"

text \<open>
  The text of the board message, used by \<open>startGame\<close> and \<open>renderWinMessage\<close>:
  \<open>players[0].id\<close> and \<open>players[1].id\<close> throw when the player is missing.
\<close>

definition iconsText :: "SaveBundle \<Rightarrow> error + string" where
  "iconsText s =
     (case js_get (players s) 0 of
        None \<Rightarrow> Inl TypeError
      | Some p0 \<Rightarrow>
          (case js_get (players s) 1 of
             None \<Rightarrow> Inl TypeError
           | Some p1 \<Rightarrow>
               Inr (mention (user_id p0) @ '' will use '' @ interpolate (fst (playerIcons s))
                    @ ''\<newline>''
                    @ mention (user_id p1) @ '' will use '' @ interpolate (snd (playerIcons s)))))"

text \<open>\<open>players[currentPlayerIndex]\<close>; an undefined index reads \<open>undefined\<close>.\<close>

definition currentPlayer :: "SaveBundle \<Rightarrow> GameUser option" where
  "currentPlayer s =
     (case currentPlayerIndex s of None \<Rightarrow> None | Some i \<Rightarrow> js_get (players s) i)"

definition leaveRow :: "MessageOptions option" where
  "leaveRow = Some \<lparr>components = Some [[LEAVE_BUTTON]], allowedMentions = None\<rparr>"

text \<open>
  \<open>a % b\<close> on whole numbers with \<open>b\<close> not 0: the sign of the result is the sign of
  \<open>a\<close>.
\<close>

definition js_rem :: "int \<Rightarrow> int \<Rightarrow> int" where
  "js_rem a b = (if a < 0 then - ((- a) mod \<bar>b\<bar>) else a mod \<bar>b\<bar>)"

text \<open>A string is false in a condition when it is \<open>undefined\<close> or empty.\<close>

definition truthy :: "string option \<Rightarrow> bool" where
  "truthy v \<longleftrightarrow> (case v of None \<Rightarrow> False | Some str \<Rightarrow> str \<noteq> [])"

subsection \<open>Lifecycle\<close>

text \<open>\<open>str.split(" ")\<close>: the pieces between the spaces, at least one.\<close>

fun split :: "string \<Rightarrow> string list" where
  "split [] = [[]]"
| "split (c # cs) =
     (if c = CHR '' '' then [] # split cs
      else (case split cs of [] \<Rightarrow> [[c]] | piece # pieces \<Rightarrow> (c # piece) # pieces))"

text \<open>
  The constructor fixes \<open>gameSize\<close> to 3 and builds the table of the two icons: from
  the pieces of its argument, where \<open>icons[0]\<close> or \<open>icons[1]\<close> is \<open>undefined\<close> when
  there is no such piece, or from its two defaults. The defaults are one UTF-16 unit
  each, outside the range of \<open>char\<close>, and are a parameter here.
\<close>

definition TicTacToe :: "string \<times> string \<Rightarrow> string option \<Rightarrow> string option \<times> string option" where
  "TicTacToe defaults args =
     (case args of
        Some str \<Rightarrow> (let icons = split str in (js_get icons 0, js_get icons 1))
      | None \<Rightarrow> (Some (fst defaults), Some (snd defaults)))"

text \<open>
  \<open>icons\<close> is the table the constructor built. Without a bundle, \<open>initialize\<close> asks
  the host for a channel, and the callback of that request builds the state.
\<close>

definition freshState :: "string option \<times> string option \<Rightarrow> string \<Rightarrow> SaveBundle" where
  "freshState icons chan =
     \<lparr>started = False,
      stale = False,
      channelId = chan,
      gameBoardMessageDescriptor = None,
      currentPlayerIndex = None,
      lastTurnMessageId = None,
      acceptSelection = False,
      possibleTurnsCount = 3 ^ 2,
      gameSize = 3,
      players = [],
      boardStates = [[None, None, None], [None, None, None], [None, None, None]],
      playerIcons = icons\<rparr>"

datatype initialized = Restored SaveBundle | Creating request "string \<Rightarrow> SaveBundle"

definition initialize ::
  "string option \<times> string option \<Rightarrow> SaveBundle option \<Rightarrow> initialized" where
  "initialize icons saveBundle =
     (case saveBundle of
        Some bundle \<Rightarrow> Restored bundle
      | None \<Rightarrow> Creating (CreateChannel ''Tic tac toe'') (freshState icons))"

text \<open>
  \<open>destroy\<close> returns the state it leaves and what its promise resolves to: the state
  itself, or nothing for a stale session.
\<close>

definition destroy :: "SaveBundle \<Rightarrow> SaveBundle \<times> SaveBundle option" where
  "destroy s = (if \<not> stale s then (s, Some s) else (s, None))"

subsection \<open>Turn notification\<close>

text \<open>
  The callback \<open>() => this.discordApi.sendMessage(...)\<close> of \<open>sendTurnNotification\<close>:
  reading \<open>.id\<close> of a missing player throws, which rejects the promise.
\<close>

definition sendTurnMessage :: "SaveBundle \<Rightarrow> outcome" where
  "sendTurnMessage s =
     (case currentPlayer s of
        None \<Rightarrow> (s, [], Some TypeError)
      | Some p \<Rightarrow>
          (s, [Call (SendMessage (yourTurnText (user_id p)) (channelId s)
                       (Some \<lparr>components = None, allowedMentions = Some [user_id p]\<rparr>))
                    TurnNotification_sent], None))"

text \<open>
  With no earlier turn message the promise is \<open>Promise.resolve()\<close>, whose callback runs
  before any other event is handled: the send follows at once.
\<close>

definition sendTurnNotification :: "SaveBundle \<Rightarrow> outcome" where
  "sendTurnNotification s =
     (if truthy (lastTurnMessageId s) then
        (s, [Call (DeleteMessage (channelId s) (lastTurnMessageId s)) TurnNotification_retracted],
         None)
      else sendTurnMessage s)"

definition turnNotificationSent :: "SaveBundle \<Rightarrow> MessageDescriptor \<Rightarrow> outcome" where
  "turnNotificationSent s md =
     (let s1 = s\<lparr>lastTurnMessageId := Some (md_messageId md)\<rparr>
      in (s1\<lparr>acceptSelection := True\<rparr>, [], None))"

subsection \<open>Joining, leaving and starting\<close>

definition startGame :: "SaveBundle \<Rightarrow> outcome" where
  "startGame s =
     (let s1 = s\<lparr>started := True\<rparr> in
      case iconsText s1 of
        Inl e \<Rightarrow> (s1, [], Some e)
      | Inr text \<Rightarrow>
          (case buildTicTacToe s1 False of
             Inl e \<Rightarrow> (s1, [], Some e)
           | Inr board \<Rightarrow>
               (s1, [Call (SendMessage text (channelId s1)
                             (Some \<lparr>components = Some board, allowedMentions = None\<rparr>))
                          StartGame_boardSent], None)))"

text \<open>
  The two callbacks chained to the board message, which run one after the other with
  no event between them. \<open>coin\<close> is the outcome of \<open>Math.round(Math.random())\<close>.
\<close>

definition startGameBoardSent :: "SaveBundle \<Rightarrow> MessageDescriptor \<Rightarrow> bool \<Rightarrow> outcome" where
  "startGameBoardSent s messageDescriptor coin =
     (let s1 = s\<lparr>gameBoardMessageDescriptor := Some messageDescriptor\<rparr>;
          s2 = s1\<lparr>currentPlayerIndex := Some (if coin then 1 else 0)\<rparr>
      in sendTurnNotification s2)"

definition handleJoin :: "SaveBundle \<Rightarrow> GameUser \<Rightarrow> outcome" where
  "handleJoin s user =
     (if started s then
        (s, [Call (SendPrivateMessage (user_id user) alreadyStartedText) Done], None)
      else if stale s then
        (s, [Call (SendPrivateMessage (user_id user) alreadyFinishedText) Done], None)
      else
        (let s1 = s\<lparr>players := players s @ [user]\<rparr>;
             added = Call (AddUserToChannel (user_id user) (channelId s1) True) Done
         in if length (players s1) = 1 then
              (s1, [added, Call (SendMessage (waitingText (user_id user)) (channelId s1) None) Done],
               None)
            else if length (players s1) = 2 then
              (case startGame s1 of
                 (s2, effects, err) \<Rightarrow>
                   (s2, [added,
                         Call (SendMessage (startingText (user_id user)) (channelId s1) None) Done]
                        @ effects, err))
            else (s1, [added], None)))"

definition handleLeave :: "SaveBundle \<Rightarrow> GameUser \<Rightarrow> outcome" where
  "handleLeave s user =
     (let userIndex = indexOf (map user_id (players s)) (user_id user) in
      if userIndex \<noteq> - 1 then
        (let s1 = s\<lparr>players := splice1 (players s) userIndex\<rparr>;
             effects =
               (if length (players s1) > 0 then
                  (if \<not> stale s1 then
                     [Call (SendMessage (leftText (user_id user)) (channelId s1) leaveRow) Done]
                   else [])
                  @ [Call (RemoveUserFromChannel (user_id user) (channelId s1)) Done]
                else [])
         in (s1\<lparr>stale := True\<rparr>, effects, None))
      else (s, [], None))"

subsection \<open>Moves\<close>

text \<open>\<open>boardStates[rowIndex][index] = v\<close>, reached only when the row exists.\<close>

definition setCell ::
  "int option list list \<Rightarrow> int \<Rightarrow> int \<Rightarrow> int option \<Rightarrow> int option list list" where
  "setCell b rowIndex index v =
     (case js_get b rowIndex of
        None \<Rightarrow> b
      | Some row \<Rightarrow> b[nat rowIndex := js_set row index v])"

definition endGameDraw :: "SaveBundle \<Rightarrow> outcome" where
  "endGameDraw s =
     (s, [Call (DeleteMessage (channelId s) (lastTurnMessageId s)) Draw_retracted], None)"

definition endGameDrawRetracted :: "SaveBundle \<Rightarrow> outcome" where
  "endGameDrawRetracted s =
     (let s1 = s\<lparr>stale := True\<rparr>
      in (s1, [Call (SendMessage drawText (channelId s1) leaveRow) Done], None))"

definition renderWinMessage :: "SaveBundle \<Rightarrow> int list \<Rightarrow> outcome" where
  "renderWinMessage s winRow =
     (let s1 = s\<lparr>stale := True\<rparr>
      in (s1, [Call (DeleteMessage (channelId s1) (lastTurnMessageId s1)) (Win_retracted winRow)],
          None))"

text \<open>
  The loop \<open>for (const buttonId of winRow)\<close> of the first callback:
  \<open>board[rowIndex].components[index].style = ButtonStyle.Success\<close> throws when the
  row or the button is missing.
\<close>

fun markWinRow :: "SaveBundle \<Rightarrow> ActionRow list \<Rightarrow> int list \<Rightarrow> error + ActionRow list" where
  "markWinRow s board [] = Inr board"
| "markWinRow s board (buttonId # rest) =
     (case getCoordFromIndex s buttonId of
        None \<Rightarrow> Inl TypeError
      | Some (rowIndex, index) \<Rightarrow>
          (case js_get board rowIndex of
             None \<Rightarrow> Inl TypeError
           | Some row \<Rightarrow>
               (case js_get row index of
                  None \<Rightarrow> Inl TypeError
                | Some button \<Rightarrow>
                    markWinRow s
                      (board[nat rowIndex := row[nat index := button\<lparr>style := Success\<rparr>]])
                      rest)))"

definition renderWinRetracted :: "SaveBundle \<Rightarrow> int list \<Rightarrow> outcome" where
  "renderWinRetracted s winRow =
     (case buildTicTacToe s True of
        Inl e \<Rightarrow> (s, [], Some e)
      | Inr board0 \<Rightarrow>
          (case markWinRow s board0 winRow of
             Inl e \<Rightarrow> (s, [], Some e)
           | Inr board \<Rightarrow>
               (case gameBoardMessageDescriptor s of
                  None \<Rightarrow> (s, [], Some TypeError)
                | Some md \<Rightarrow>
                    (case iconsText s of
                       Inl e \<Rightarrow> (s, [], Some e)
                     | Inr text \<Rightarrow>
                         (s, [Call (EditMessage (md_channelId md) (md_messageId md) text
                                      \<lparr>components = Some board, allowedMentions = None\<rparr>)
                                   (Win_edited winRow)], None)))))"

text \<open>
  The second callback: the winner is the player whose index the first cell of the line
  holds; \<open>winner.id\<close> throws when there is no such player.
\<close>

definition renderWinEdited :: "SaveBundle \<Rightarrow> int list \<Rightarrow> outcome" where
  "renderWinEdited s winRow =
     (case js_get winRow 0 of
        None \<Rightarrow> (s, [], Some TypeError)
      | Some buttonId \<Rightarrow>
          (case getCoordFromIndex s buttonId of
             None \<Rightarrow> (s, [], Some TypeError)
           | Some (rowIndex, index) \<Rightarrow>
               (case cell (boardStates s) rowIndex index of
                  Inl e \<Rightarrow> (s, [], Some e)
                | Inr None \<Rightarrow> (s, [], Some TypeError)
                | Inr (Some owner) \<Rightarrow>
                    (case js_get (players s) owner of
                       None \<Rightarrow> (s, [], Some TypeError)
                     | Some winner \<Rightarrow>
                         (s, [Call (SendMessage (wonText (user_id winner)) (channelId s)
                                      (Some \<lparr>components = Some [[LEAVE_BUTTON]],
                                             allowedMentions = Some [user_id winner]\<rparr>))
                                   Done], None)))))"

definition handleUserTurn :: "SaveBundle \<Rightarrow> int \<Rightarrow> outcome" where
  "handleUserTurn s buttonId =
     (case getCoordFromIndex s buttonId of
        None \<Rightarrow> (s, [], Some TypeError)
      | Some (rowIndex, index) \<Rightarrow>
          (case cell (boardStates s) rowIndex index of
             Inl e \<Rightarrow> (s, [], Some e)
           | Inr (Some selection) \<Rightarrow>
               (s, [Warn wrongTurnText], None)
           | Inr None \<Rightarrow>
               (let s1 = s\<lparr>possibleTurnsCount := possibleTurnsCount s - 1\<rparr>;
                    s2 = s1\<lparr>boardStates :=
                              setCell (boardStates s1) rowIndex index (currentPlayerIndex s1)\<rparr>
                in case checkForWin s2 of
                     Inl e \<Rightarrow> (s2, [], Some e)
                   | Inr (Some winRow) \<Rightarrow> renderWinMessage s2 winRow
                   | Inr None \<Rightarrow>
                       (let s3 = s2\<lparr>acceptSelection := False\<rparr> in
                        case gameBoardMessageDescriptor s3 of
                          None \<Rightarrow> (s3, [], Some TypeError)
                        | Some md \<Rightarrow>
                            (case buildButton s3 rowIndex index False of
                               Inl e \<Rightarrow> (s3, [], Some e)
                             | Inr button \<Rightarrow>
                                 (s3, [Call (ReplaceControl (channelId s3) (md_messageId md)
                                               (toString buttonId) button)
                                            UserTurn_replaced], None))))))"

text \<open>
  The callback of \<open>replaceControl\<close>. An undefined index plus one is \<open>NaN\<close>, which
  indexes no player either and is kept as \<open>None\<close>.
\<close>

definition userTurnReplaced :: "SaveBundle \<Rightarrow> outcome" where
  "userTurnReplaced s =
     (if possibleTurnsCount s = 0 then endGameDraw s
      else
        (let s1 = s\<lparr>currentPlayerIndex :=
                      (case currentPlayerIndex s of
                         None \<Rightarrow> None
                       | Some i \<Rightarrow> Some (js_rem (i + 1) 2))\<rparr>
         in sendTurnNotification s1))"

text \<open>The callback of a transient notice: its retraction, three seconds later.\<close>

definition noticeSent :: "SaveBundle \<Rightarrow> MessageDescriptor \<Rightarrow> outcome" where
  "noticeSent s md =
     (s, [SetTimeout (DeleteMessage (md_channelId md) (Some (md_messageId md))) 3000], None)"

text \<open>
  A comparison with \<open>NaN\<close> is false. \<open>players[currentPlayerIndex].id\<close> throws when
  there is no such player.
\<close>

definition handleButtonClick :: "SaveBundle \<Rightarrow> GameUser \<Rightarrow> string \<Rightarrow> outcome" where
  "handleButtonClick s user buttonIdText =
     (let buttonId = parseInt buttonIdText in
      if \<not> stale s
         \<and> (case buttonId of None \<Rightarrow> False | Some n \<Rightarrow> n \<ge> 0)
         \<and> (case buttonId of None \<Rightarrow> False | Some n \<Rightarrow> n \<le> 8)
         \<and> gameBoardMessageDescriptor s \<noteq> None
      then
        (case currentPlayer s of
           None \<Rightarrow> (s, [], Some TypeError)
         | Some p \<Rightarrow>
             if user_id user \<noteq> user_id p then
               (s, [Call (SendMessage (notYourTurnText (user_id user)) (channelId s) None)
                         Notice_sent], None)
             else if \<not> acceptSelection s then
               (s, [Call (SendMessage (alreadyChoseText (user_id user)) (channelId s) None)
                         Notice_sent], None)
             else (case buttonId of
                     None \<Rightarrow> (s, [], None)
                   | Some n \<Rightarrow> handleUserTurn s n))
      else (s, [], None))"

subsection \<open>Events and the callbacks of completed requests\<close>

datatype GameEvent =
    JOIN GameUser
  | LEAVE GameUser
  | BUTTON_CLICK GameUser string
  | OTHER

definition onEvent :: "SaveBundle \<Rightarrow> GameEvent \<Rightarrow> outcome" where
  "onEvent s event =
     (case event of
        JOIN user \<Rightarrow> handleJoin s user
      | LEAVE user \<Rightarrow> handleLeave s user
      | BUTTON_CLICK user buttonId \<Rightarrow> handleButtonClick s user buttonId
      | OTHER \<Rightarrow> (s, [], None))"

text \<open>
  The callback of a request that completed: \<open>md\<close> is the descriptor a send resolves
  to (the other callbacks take no argument), \<open>coin\<close> the random choice of the first
  player.
\<close>

definition resume :: "continuation \<Rightarrow> MessageDescriptor \<Rightarrow> bool \<Rightarrow> SaveBundle \<Rightarrow> outcome" where
  "resume k md coin s =
     (case k of
        Done \<Rightarrow> (s, [], None)
      | StartGame_boardSent \<Rightarrow> startGameBoardSent s md coin
      | TurnNotification_retracted \<Rightarrow> sendTurnMessage s
      | TurnNotification_sent \<Rightarrow> turnNotificationSent s md
      | Notice_sent \<Rightarrow> noticeSent s md
      | UserTurn_replaced \<Rightarrow> userTurnReplaced s
      | Draw_retracted \<Rightarrow> endGameDrawRetracted s
      | Win_retracted winRow \<Rightarrow> renderWinRetracted s winRow
      | Win_edited winRow \<Rightarrow> renderWinEdited s winRow)"

subsection \<open>A session over time\<close>

text \<open>
  The session with the requests still in flight and the timers still running. An input
  is an event from the host, the completion or failure of the request at a position of
  the list in flight, a timer that fires, or the host giving the game up and restoring
  it from what \<open>destroy\<close> returned (requests in flight and timers are then lost; a
  stale session returns nothing and is left as it is). Inputs come in any order:
  nothing in the program makes an event wait for the requests of an earlier one.
\<close>

record config =
  state :: SaveBundle
  pending :: "(request \<times> continuation) list"
  timers :: "request list"

datatype input =
    Event GameEvent
  | Resolve nat MessageDescriptor bool
  | Reject nat
  | Timeout nat
  | Restore

fun calls :: "effect list \<Rightarrow> (request \<times> continuation) list" where
  "calls [] = []"
| "calls (Call r k # es) = (r, k) # calls es"
| "calls (e # es) = calls es"

fun timeouts :: "effect list \<Rightarrow> request list" where
  "timeouts [] = []"
| "timeouts (SetTimeout r delay # es) = r # timeouts es"
| "timeouts (e # es) = timeouts es"

definition dropAt :: "nat \<Rightarrow> 'a list \<Rightarrow> 'a list" where
  "dropAt n xs = take n xs @ drop (Suc n) xs"

definition absorb :: "config \<Rightarrow> (request \<times> continuation) list \<Rightarrow> outcome \<Rightarrow> config" where
  "absorb c rest out =
     (case out of
        (s, effects, err) \<Rightarrow>
          c\<lparr>state := s, pending := rest @ calls effects, timers := timers c @ timeouts effects\<rparr>)"

definition step :: "config \<Rightarrow> input \<Rightarrow> config" where
  "step c i =
     (case i of
        Event event \<Rightarrow> absorb c (pending c) (onEvent (state c) event)
      | Resolve n md coin \<Rightarrow>
          (if n < length (pending c)
           then absorb c (dropAt n (pending c)) (resume (snd (pending c ! n)) md coin (state c))
           else c)
      | Reject n \<Rightarrow> c\<lparr>pending := dropAt n (pending c)\<rparr>
      | Timeout n \<Rightarrow>
          (if n < length (timers c)
           then c\<lparr>pending := pending c @ [(timers c ! n, Done)], timers := dropAt n (timers c)\<rparr>
           else c)
      | Restore \<Rightarrow>
          (case snd (destroy (state c)) of
             None \<Rightarrow> c
           | Some bundle \<Rightarrow>
               (case initialize (playerIcons bundle) (Some bundle) of
                  Restored s \<Rightarrow> \<lparr>state = s, pending = [], timers = []\<rparr>
                | Creating r f \<Rightarrow> c)))"

definition run :: "config \<Rightarrow> input list \<Rightarrow> config" where
  "run c ins = foldl step c ins"

text \<open>A new session: the state the callback of \<open>createChannel\<close> builds.\<close>

definition newSession :: "string option \<times> string option \<Rightarrow> string \<Rightarrow> config" where
  "newSession icons chan = \<lparr>state = freshState icons chan, pending = [], timers = []\<rparr>"

subsection \<open>The lines of the board, as the specification lists them\<close>

text \<open>
  The specification's side of the win check: the eight lines of a 3 by 3 board by their
  cell indices, in the order rows from the top, columns from the left, the diagonal
  from the top left, the diagonal from the bottom left; the cell with index \<open>i\<close> is in
  row \<open>i div 3\<close> and column \<open>i mod 3\<close>; a line is owned when all its cells hold the
  same player.
\<close>

definition board3 :: "SaveBundle \<Rightarrow> bool" where
  "board3 s \<longleftrightarrow>
     gameSize s = 3 \<and> length (boardStates s) = 3 \<and> (\<forall>r \<in> set (boardStates s). length r = 3)"

definition scanOrder :: "int list list" where
  "scanOrder =
     [[0, 1, 2], [3, 4, 5], [6, 7, 8],
      [0, 3, 6], [1, 4, 7], [2, 5, 8],
      [0, 4, 8], [6, 4, 2]]"

definition occupant :: "int option list list \<Rightarrow> int \<Rightarrow> int option" where
  "occupant b i = b ! nat (i div 3) ! nat (i mod 3)"

definition lineOwned :: "int option list list \<Rightarrow> int list \<Rightarrow> bool" where
  "lineOwned b l \<longleftrightarrow>
     l \<noteq> [] \<and> isDefined (occupant b (hd l)) \<and> (\<forall>i \<in> set l. occupant b i = occupant b (hd l))"

subsection \<open>Accepted moves along a run\<close>

text \<open>
  A click is an accepted move when it places a mark, which is when the handler counts
  the remaining cells down. \<open>movers\<close> lists, for the accepted moves of a run in their
  order, the player index that was current when the move was made.
\<close>

definition accepted :: "SaveBundle \<Rightarrow> GameUser \<Rightarrow> string \<Rightarrow> bool" where
  "accepted s user buttonId \<longleftrightarrow>
     possibleTurnsCount (fst (handleButtonClick s user buttonId)) \<noteq> possibleTurnsCount s"

definition acceptedInput :: "config \<Rightarrow> input \<Rightarrow> bool" where
  "acceptedInput c i =
     (case i of
        Event (BUTTON_CLICK user buttonId) \<Rightarrow> accepted (state c) user buttonId
      | _ \<Rightarrow> False)"

fun movers :: "config \<Rightarrow> input list \<Rightarrow> int option list" where
  "movers c [] = []"
| "movers c (i # ins) =
     (if acceptedInput c i then [currentPlayerIndex (state c)] else []) @ movers (step c i) ins"

text \<open>Each mover is the other player than the one before.\<close>

fun alternating :: "int option list \<Rightarrow> bool" where
  "alternating (Some a # Some b # ms) \<longleftrightarrow> b = (a + 1) mod 2 \<and> alternating (Some b # ms)"
| "alternating [Some a] \<longleftrightarrow> True"
| "alternating [] \<longleftrightarrow> True"
| "alternating ms \<longleftrightarrow> False"

text \<open>How often a run takes the session from not started to started.\<close>

fun starts :: "config \<Rightarrow> input list \<Rightarrow> nat" where
  "starts c [] = 0"
| "starts c (i # ins) =
     (if \<not> started (state c) \<and> started (state (step c i)) then 1 else 0) + starts (step c i) ins"

text \<open>The number of cells that hold a mark.\<close>

definition occupiedCount :: "int option list list \<Rightarrow> nat" where
  "occupiedCount b = length (filter isDefined (concat b))"

text \<open>
  The continuations of the requests in flight, and those among them that belong to a
  turn cycle: from the board message or the replaced control to the turn message.
\<close>

definition conts :: "config \<Rightarrow> continuation list" where
  "conts c = map snd (pending c)"

definition isTurnCycle :: "continuation \<Rightarrow> bool" where
  "isTurnCycle k \<longleftrightarrow>
     k = StartGame_boardSent \<or> k = TurnNotification_retracted
     \<or> k = TurnNotification_sent \<or> k = UserTurn_replaced"

subsection \<open>Invariants\<close>

text \<open>What holds of the state of a session whatever happened to it.\<close>

definition validIndex :: "int option \<Rightarrow> bool" where
  "validIndex v \<longleftrightarrow> v = None \<or> v = Some 0 \<or> v = Some 1"

definition stateInv :: "SaveBundle \<Rightarrow> bool" where
  "stateInv s \<longleftrightarrow>
     board3 s
     \<and> (\<forall>row \<in> set (boardStates s). \<forall>v \<in> set row. validIndex v)
     \<and> possibleTurnsCount s + int (occupiedCount (boardStates s)) = 9
     \<and> length (players s) \<le> 2
     \<and> (\<not> started s \<longrightarrow> length (players s) \<le> 1)
     \<and> (started s \<and> \<not> stale s \<longrightarrow> length (players s) = 2)
     \<and> validIndex (currentPlayerIndex s)
     \<and> (gameBoardMessageDescriptor s \<noteq> None \<longrightarrow> currentPlayerIndex s \<noteq> None)"

text \<open>
  The index that must be current after the move of \<open>prev\<close>, when a move is awaited.
\<close>

definition nextOK :: "int option \<Rightarrow> SaveBundle \<Rightarrow> bool" where
  "nextOK prev s =
     (case prev of None \<Rightarrow> True | Some m \<Rightarrow> currentPlayerIndex s = Some ((m + 1) mod 2))"

text \<open>
  What holds of the continuations \<open>ks\<close> of the requests in flight, with \<open>prev\<close> the
  mover of the latest accepted move: at most one turn cycle runs, and none while a move
  is awaited.
\<close>

definition cycleOK :: "SaveBundle \<Rightarrow> continuation list \<Rightarrow> int option \<Rightarrow> bool" where
  "cycleOK s ks prev \<longleftrightarrow>
     length (filter isTurnCycle ks) \<le> 1
     \<and> (acceptSelection s \<longrightarrow> filter isTurnCycle ks = [])
     \<and> (\<not> started s \<longrightarrow>
          filter isTurnCycle ks = [] \<and> gameBoardMessageDescriptor s = None
          \<and> \<not> acceptSelection s \<and> prev = None)
     \<and> (StartGame_boardSent \<in> set ks \<longrightarrow> gameBoardMessageDescriptor s = None \<and> prev = None)
     \<and> (UserTurn_replaced \<in> set ks \<longrightarrow>
          prev \<noteq> None \<and> currentPlayerIndex s = prev \<and> gameBoardMessageDescriptor s \<noteq> None)
     \<and> (TurnNotification_retracted \<in> set ks \<or> TurnNotification_sent \<in> set ks \<longrightarrow>
          nextOK prev s \<and> gameBoardMessageDescriptor s \<noteq> None)
     \<and> (acceptSelection s \<and> \<not> stale s \<longrightarrow> nextOK prev s)"

definition cycleInv :: "config \<Rightarrow> int option \<Rightarrow> bool" where
  "cycleInv c prev \<longleftrightarrow> cycleOK (state c) (conts c) prev"

definition lastMover :: "config \<Rightarrow> input \<Rightarrow> int option \<Rightarrow> int option" where
  "lastMover c i prev = (if acceptedInput c i then currentPlayerIndex (state c) else prev)"

text \<open>\<open>altFrom prev ms\<close>: the movers \<open>ms\<close> alternate, starting after the mover \<open>prev\<close>.\<close>

definition altFrom :: "int option \<Rightarrow> int option list \<Rightarrow> bool" where
  "altFrom prev ms = (case prev of None \<Rightarrow> alternating ms | Some m \<Rightarrow> alternating (Some m # ms))"

subsection \<open>Placing a mark\<close>

text \<open>
  The board with the value \<open>v\<close> written to the cell with index \<open>n\<close>, the state after
  player \<open>p\<close> marked that cell, and the conditions under which a click makes the
  handler do so.
\<close>

definition place :: "int option list list \<Rightarrow> int \<Rightarrow> int option \<Rightarrow> int option list list" where
  "place b n v = setCell b (n div 3) (n - n div 3 * 3) v"

definition marked :: "SaveBundle \<Rightarrow> int \<Rightarrow> int \<Rightarrow> SaveBundle" where
  "marked s n p =
     s\<lparr>possibleTurnsCount := possibleTurnsCount s - 1,
       boardStates := place (boardStates s) n (Some p)\<rparr>"

definition places :: "SaveBundle \<Rightarrow> GameUser \<Rightarrow> string \<Rightarrow> int \<Rightarrow> int \<Rightarrow> bool" where
  "places s user buttonId n p \<longleftrightarrow>
     \<not> stale s \<and> parseInt buttonId = Some n \<and> 0 \<le> n \<and> n \<le> 8
     \<and> gameBoardMessageDescriptor s \<noteq> None
     \<and> currentPlayerIndex s = Some p
     \<and> (\<exists>pl. currentPlayer s = Some pl \<and> user_id user = user_id pl)
     \<and> acceptSelection s
     \<and> occupant (boardStates s) n = None"

subsection \<open>Sequences of joins, and an example game\<close>

definition joins :: "GameUser list \<Rightarrow> input list" where
  "joins us = map (\<lambda>u. Event (JOIN u)) us"

text \<open>
  Two players join, the board message and the first turn message are delivered, and the
  coin makes the second player begin; then that player marks the middle cell and the
  next turn cycle completes.
\<close>

definition alice :: GameUser where "alice = \<lparr>user_id = ''alice''\<rparr>"

definition bob :: GameUser where "bob = \<lparr>user_id = ''bob''\<rparr>"

definition carol :: GameUser where "carol = \<lparr>user_id = ''carol''\<rparr>"

definition descriptor :: "string \<Rightarrow> MessageDescriptor" where
  "descriptor m = \<lparr>md_channelId = ''chan'', md_messageId = m\<rparr>"

definition gameOpening :: "input list" where
  "gameOpening =
     [Event (JOIN alice), Event (JOIN bob),
      Resolve 4 (descriptor ''board'') True, Resolve 4 (descriptor ''turn1'') True]"

definition firstMove :: "input list" where
  "firstMove =
     gameOpening @
     [Event (BUTTON_CLICK bob ''4''), Resolve 4 (descriptor ''board'') True,
      Resolve 4 (descriptor ''turn1'') True, Resolve 4 (descriptor ''turn2'') True]"

text \<open>
  The session in the middle of that game, with its requests in flight; the same after
  the second player has left; the state after the same user has joined twice; and the
  opening with a first turn message whose id is the empty string, followed by the first
  move.
\<close>

definition midGame :: config where
  "midGame = run (newSession (Some ''X'', Some ''O'') ''chan'') firstMove"

definition afterLeave :: config where
  "afterLeave = run (newSession (Some ''X'', Some ''O'') ''chan'') (firstMove @ [Event (LEAVE bob)])"

definition twiceJoined :: SaveBundle where
  "twiceJoined = state (run (newSession (Some ''X'', Some ''O'') ''chan'') (joins [alice, alice]))"


text \<open>The opening, and then the click of the player who begins on the middle cell.\<close>

definition stuckGame :: "input list" where
  "stuckGame = gameOpening @ [Event (BUTTON_CLICK bob ''4'')]"

definition afterOpening :: SaveBundle where
  "afterOpening = state (run (newSession (Some ''X'', Some ''O'') ''chan'') gameOpening)"

definition afterFirstMove :: SaveBundle where
  "afterFirstMove = state (run (newSession (Some ''X'', Some ''O'') ''chan'') firstMove)"

subsection \<open>Notions used in the proofs\<close>

text \<open>The condition of one line, kept folded in the proofs.\<close>

definition owned3 :: "int option \<Rightarrow> int option \<Rightarrow> int option \<Rightarrow> bool" where
  "owned3 x y z \<longleftrightarrow> x \<noteq> None \<and> x = y \<and> y = z"

text \<open>One for a cell that holds a mark, nought for an empty one.\<close>

definition cnt :: "int option \<Rightarrow> nat" where
  "cnt v = (if isDefined v then 1 else 0)"

text \<open>
  An outcome that leaves alone what a turn cycle depends on: the acceptance flag, the
  start, the board message, the current player; that does not revive a stale session;
  and that issues no request of a turn cycle.
\<close>

definition weakOutcome :: "SaveBundle \<Rightarrow> outcome \<Rightarrow> bool" where
  "weakOutcome s out \<longleftrightarrow>
     (case out of
        (s', effects, err) \<Rightarrow>
          acceptSelection s' = acceptSelection s \<and> started s' = started s
          \<and> gameBoardMessageDescriptor s' = gameBoardMessageDescriptor s
          \<and> currentPlayerIndex s' = currentPlayerIndex s
          \<and> (stale s \<longrightarrow> stale s')
          \<and> (\<forall>k \<in> set (map snd (calls effects)). \<not> isTurnCycle k))"

text \<open>
  A session that is started, awaits no move and has no request of a turn cycle in
  flight.
\<close>

definition halted :: "config \<Rightarrow> bool" where
  "halted c \<longleftrightarrow>
     started (state c) \<and> \<not> acceptSelection (state c)
     \<and> filter isTurnCycle (conts c) = []"

section \<open>Properties\<close>

subsection \<open>The win check\<close>

lemma sameOwner_Inr: "sameOwner (Inr x) (Inr y) (Inr z) = Inr (owned3 x y z)"
  by (auto simp: sameOwner_def owned3_def isDefined_def)

lemma lineOwned_single_player:
  "l \<noteq> [] \<Longrightarrow> lineOwned b l \<longleftrightarrow> (\<exists>p. \<forall>i \<in> set l. occupant b i = Some p)"
  by (cases l) (auto simp: lineOwned_def isDefined_def)

lemma lineOwned3:
  "lineOwned b [i, j, k] \<longleftrightarrow> owned3 (occupant b i) (occupant b j) (occupant b k)"
  by (auto simp: lineOwned_def owned3_def isDefined_def)

lemma board3_shape:
  assumes "board3 s"
  obtains a1 a2 a3 b1 b2 b3 c1 c2 c3 where
    "boardStates s = [[a1, a2, a3], [b1, b2, b3], [c1, c2, c3]]" and "gameSize s = 3"
proof -
  from assms have l: "length (boardStates s) = 3" and g: "gameSize s = 3"
    and r: "\<forall>r \<in> set (boardStates s). length r = 3"
    by (auto simp: board3_def)
  from l obtain r1 r2 r3 where b: "boardStates s = [r1, r2, r3]"
    by (auto simp: length_Suc_conv numeral_3_eq_3)
  with r have "length r1 = 3" "length r2 = 3" "length r3 = 3"
    by auto
  then obtain a1 a2 a3 b1 b2 b3 c1 c2 c3 where
    "r1 = [a1, a2, a3]" "r2 = [b1, b2, b3]" "r3 = [c1, c2, c3]"
    by (auto simp: length_Suc_conv numeral_3_eq_3)
  with b g that show thesis
    by blast
qed

lemma cell3:
  "cell [[a1, a2, a3], [b1, b2, b3], [c1, c2, c3]] 0 0 = Inr a1"
  "cell [[a1, a2, a3], [b1, b2, b3], [c1, c2, c3]] 0 1 = Inr a2"
  "cell [[a1, a2, a3], [b1, b2, b3], [c1, c2, c3]] 0 2 = Inr a3"
  "cell [[a1, a2, a3], [b1, b2, b3], [c1, c2, c3]] 1 0 = Inr b1"
  "cell [[a1, a2, a3], [b1, b2, b3], [c1, c2, c3]] 1 1 = Inr b2"
  "cell [[a1, a2, a3], [b1, b2, b3], [c1, c2, c3]] 1 2 = Inr b3"
  "cell [[a1, a2, a3], [b1, b2, b3], [c1, c2, c3]] 2 0 = Inr c1"
  "cell [[a1, a2, a3], [b1, b2, b3], [c1, c2, c3]] 2 1 = Inr c2"
  "cell [[a1, a2, a3], [b1, b2, b3], [c1, c2, c3]] 2 2 = Inr c3"
  by (simp_all add: cell_def js_get_def)

lemma occupant3:
  "occupant [[a1, a2, a3], [b1, b2, b3], [c1, c2, c3]] 0 = a1"
  "occupant [[a1, a2, a3], [b1, b2, b3], [c1, c2, c3]] 1 = a2"
  "occupant [[a1, a2, a3], [b1, b2, b3], [c1, c2, c3]] 2 = a3"
  "occupant [[a1, a2, a3], [b1, b2, b3], [c1, c2, c3]] 3 = b1"
  "occupant [[a1, a2, a3], [b1, b2, b3], [c1, c2, c3]] 4 = b2"
  "occupant [[a1, a2, a3], [b1, b2, b3], [c1, c2, c3]] 5 = b3"
  "occupant [[a1, a2, a3], [b1, b2, b3], [c1, c2, c3]] 6 = c1"
  "occupant [[a1, a2, a3], [b1, b2, b3], [c1, c2, c3]] 7 = c2"
  "occupant [[a1, a2, a3], [b1, b2, b3], [c1, c2, c3]] 8 = c3"
  by (simp_all add: occupant_def)

lemma checkForWin_find:
  assumes "board3 s"
  shows "checkForWin s = Inr (find (lineOwned (boardStates s)) scanOrder)"
proof -
  from assms obtain a1 a2 a3 b1 b2 b3 c1 c2 c3 where
    b: "boardStates s = [[a1, a2, a3], [b1, b2, b3], [c1, c2, c3]]" and g: "gameSize s = 3"
    by (rule board3_shape)
  note ev = b g cell3 sameOwner_Inr lineOwned3 occupant3 Let_def
  let ?rest = "\<lambda>ls. Inr (find (lineOwned (boardStates s)) ls) :: error + int list option"
  have d: "checkDiagonals s = ?rest [[0, 4, 8], [6, 4, 2]]"
    by (simp add: checkDiagonals_def ev)
  have c3: "checkColumns s 3 = checkDiagonals s"
    by (subst checkColumns.simps) (simp add: g)
  have c2: "checkColumns s 2 = ?rest [[2, 5, 8], [0, 4, 8], [6, 4, 2]]"
    by (subst checkColumns.simps) (simp add: c3 d ev)
  have c1: "checkColumns s 1 = ?rest [[1, 4, 7], [2, 5, 8], [0, 4, 8], [6, 4, 2]]"
    by (subst checkColumns.simps) (simp add: c2 ev)
  have c0: "checkColumns s 0 = ?rest [[0, 3, 6], [1, 4, 7], [2, 5, 8], [0, 4, 8], [6, 4, 2]]"
    by (subst checkColumns.simps) (simp add: c1 ev)
  have r3: "checkRows s 3 = checkColumns s 0"
    by (subst checkRows.simps) (simp add: g)
  have r2: "checkRows s 2 =
      ?rest [[6, 7, 8], [0, 3, 6], [1, 4, 7], [2, 5, 8], [0, 4, 8], [6, 4, 2]]"
    by (subst checkRows.simps) (simp add: r3 c0 ev)
  have r1: "checkRows s 1 =
      ?rest [[3, 4, 5], [6, 7, 8], [0, 3, 6], [1, 4, 7], [2, 5, 8], [0, 4, 8], [6, 4, 2]]"
    by (subst checkRows.simps) (simp add: r2 ev)
  show ?thesis
    unfolding checkForWin_def scanOrder_def
    by (subst checkRows.simps) (simp add: r1 ev)
qed

lemma scanOrder_nonempty: "l \<in> set scanOrder \<Longrightarrow> l \<noteq> []"
  by (auto simp: scanOrder_def)

text \<open>
  C1. On a 3 by 3 board \<open>checkForWin\<close> throws nothing and returns the first line of the
  scan order (rows from the top, columns from the left, then the two diagonals) all of
  whose cells hold the same player, by its three cell indices, and \<open>undefined\<close> when
  there is none; so it returns a line exactly when one of the eight lines is fully
  occupied by a single player.
\<close>

theorem checkForWin_first_owned_line:
  assumes "board3 s"
  shows "checkForWin s = Inr (find (lineOwned (boardStates s)) scanOrder)
       \<and> ((\<exists>l. checkForWin s = Inr (Some l))
            \<longleftrightarrow> (\<exists>l \<in> set scanOrder. \<exists>p. \<forall>i \<in> set l. occupant (boardStates s) i = Some p))"
proof -
  have f: "checkForWin s = Inr (find (lineOwned (boardStates s)) scanOrder)"
    using assms by (rule checkForWin_find)
  have "(\<exists>l. find (lineOwned (boardStates s)) scanOrder = Some l)
      \<longleftrightarrow> (\<exists>l \<in> set scanOrder. lineOwned (boardStates s) l)"
    using find_None_iff [of "lineOwned (boardStates s)" scanOrder] by auto
  also have "\<dots> \<longleftrightarrow> (\<exists>l \<in> set scanOrder. \<exists>p. \<forall>i \<in> set l. occupant (boardStates s) i = Some p)"
    using lineOwned_single_player scanOrder_nonempty by blast
  finally show ?thesis
    using f by simp
qed

theorem checkForWin_first_owned_line_witness:
  "board3 ((freshState (Some ''X'', Some ''O'') ''c'')
             \<lparr>boardStates := [[Some 0, None, Some 1], [None, Some 1, None], [Some 1, None, Some 0]]\<rparr>)
   \<and> checkForWin ((freshState (Some ''X'', Some ''O'') ''c'')
             \<lparr>boardStates := [[Some 0, None, Some 1], [None, Some 1, None], [Some 1, None, Some 0]]\<rparr>)
     = Inr (Some [6, 4, 2])"
  using checkForWin_first_owned_line
    [of "(freshState (Some ''X'', Some ''O'') ''c'')
             \<lparr>boardStates := [[Some 0, None, Some 1], [None, Some 1, None], [Some 1, None, Some 0]]\<rparr>"]
  by (simp add: board3_def freshState_def scanOrder_def lineOwned_def occupant_def isDefined_def)

subsection \<open>Leaving\<close>

lemma indexOf_ge: "- 1 \<le> indexOf xs x"
  by (induction xs) (auto simp: Let_def)

lemma indexOf_absent: "indexOf xs x = - 1 \<longleftrightarrow> x \<notin> set xs"
proof (induction xs)
  case Nil
  then show ?case by simp
next
  case (Cons y ys)
  with indexOf_ge [of ys x] show ?case
    by (auto simp: Let_def)
qed

lemma indexOf_splice1:
  "x \<in> set (map f ps) \<Longrightarrow> map f (splice1 ps (indexOf (map f ps) x)) = remove1 x (map f ps)"
proof (induction ps)
  case Nil
  then show ?case by simp
next
  case (Cons p ps)
  show ?case
  proof (cases "f p = x")
    case True
    then show ?thesis by (simp add: splice1_def)
  next
    case False
    with Cons.prems have m: "x \<in> set (map f ps)" by auto
    then have n: "indexOf (map f ps) x \<noteq> - 1" by (simp add: indexOf_absent)
    with indexOf_ge [of "map f ps" x] have g: "0 \<le> indexOf (map f ps) x" by linarith
    from g have "nat (indexOf (map f ps) x + 1) = Suc (nat (indexOf (map f ps) x))" by simp
    with False n Cons.IH [OF m] show ?thesis
      by (simp add: splice1_def Let_def)
  qed
qed

lemma indexOf_splice1_length:
  "x \<in> set (map f ps) \<Longrightarrow> Suc (length (splice1 ps (indexOf (map f ps) x))) = length ps"
proof -
  assume m: "x \<in> set (map f ps)"
  then have "length (map f (splice1 ps (indexOf (map f ps) x))) = length (remove1 x (map f ps))"
    by (simp only: indexOf_splice1)
  with m show ?thesis by (simp add: length_remove1) (cases ps; auto)
qed

lemma remove1_gone:
  "x \<in> set xs \<Longrightarrow> x \<notin> set (remove1 x xs) \<longleftrightarrow> count_list xs x = 1"
proof (induction xs)
  case Nil
  then show ?case by simp
next
  case (Cons a xs)
  show ?case
  proof (cases "a = x")
    case True
    then show ?thesis
      by (simp add: count_list_0_iff)
  next
    case False
    with Cons show ?thesis
      by auto
  qed
qed

text \<open>
  C5. A leave event of a user who is no member changes nothing and issues no request.
  For a member, the first entry with the user's id is removed from \<open>players\<close>, and the
  user is no member afterwards exactly when that was the user's only entry; the session
  is stale afterwards, whatever it was before. When a player remains, the requests are
  the stale notice, which names the user and carries one row with the one control
  labelled \<open>Leave game\<close> of the host's leave identity (sent only if the session was not stale
  already), and then the removal of the user from the channel; when nobody remains,
  there is no request at all.
\<close>

theorem handleLeave_cases:
  "(user_id user \<notin> set (map user_id (players s)) \<longrightarrow> handleLeave s user = (s, [], None))
   \<and> (user_id user \<in> set (map user_id (players s)) \<longrightarrow>
        (\<exists>ps. handleLeave s user =
                 (s\<lparr>players := ps, stale := True\<rparr>,
                  (if length ps > 0 then
                     (if \<not> stale s
                      then [Call (SendMessage
                                    (''User <@'' @ user_id user
                                     @ ''> has left the game.\<newline>This game session become stale.\<newline>Leave the session.'')
                                    (channelId s)
                                    (Some \<lparr>components =
                                             Some [[\<lparr>style = Primary, label = Some ''Leave game'',
                                                     emoji = None, custom_id = LEAVE_SESSION,
                                                     disabled = None\<rparr>]],
                                           allowedMentions = None\<rparr>))
                                 Done]
                      else [])
                     @ [Call (RemoveUserFromChannel (user_id user) (channelId s)) Done]
                   else []),
                  None)
              \<and> map user_id ps = remove1 (user_id user) (map user_id (players s))
              \<and> Suc (length ps) = length (players s)
              \<and> (user_id user \<notin> set (map user_id ps)
                   \<longleftrightarrow> count_list (map user_id (players s)) (user_id user) = 1)))"
proof (intro conjI impI)
  assume "user_id user \<notin> set (map user_id (players s))"
  then have "indexOf (map user_id (players s)) (user_id user) = - 1"
    by (simp add: indexOf_absent)
  then show "handleLeave s user = (s, [], None)"
    by (simp add: handleLeave_def)
next
  assume m: "user_id user \<in> set (map user_id (players s))"
  let ?i = "indexOf (map user_id (players s)) (user_id user)"
  let ?ps = "splice1 (players s) ?i"
  let ?notice = "Call (SendMessage
                         (''User <@'' @ user_id user
                          @ ''> has left the game.\<newline>This game session become stale.\<newline>Leave the session.'')
                         (channelId s)
                         (Some \<lparr>components =
                                  Some [[\<lparr>style = Primary, label = Some ''Leave game'',
                                          emoji = None, custom_id = LEAVE_SESSION,
                                          disabled = None\<rparr>]],
                                allowedMentions = None\<rparr>))
                      Done"
  from m have n: "?i \<noteq> - 1"
    using indexOf_absent [of "map user_id (players s)" "user_id user"] by simp
  have r: "map user_id ?ps = remove1 (user_id user) (map user_id (players s))"
    using m by (rule indexOf_splice1)
  have l: "Suc (length ?ps) = length (players s)"
    using m by (rule indexOf_splice1_length)
  have d: "user_id user \<notin> set (map user_id ?ps)
             \<longleftrightarrow> count_list (map user_id (players s)) (user_id user) = 1"
    unfolding r using m by (rule remove1_gone)
  have "handleLeave s user =
      (s\<lparr>players := ?ps, stale := True\<rparr>,
       (if length ?ps > 0 then
          (if \<not> stale s then [?notice] else [])
          @ [Call (RemoveUserFromChannel (user_id user) (channelId s)) Done]
        else []),
       None)"
    using n by (simp add: handleLeave_def Let_def leftText_def mention_def leaveRow_def
        LEAVE_BUTTON_def)
  with r l d show "\<exists>ps. handleLeave s user =
                 (s\<lparr>players := ps, stale := True\<rparr>,
                  (if length ps > 0 then
                     (if \<not> stale s then [?notice] else [])
                     @ [Call (RemoveUserFromChannel (user_id user) (channelId s)) Done]
                   else []),
                  None)
              \<and> map user_id ps = remove1 (user_id user) (map user_id (players s))
              \<and> Suc (length ps) = length (players s)
              \<and> (user_id user \<notin> set (map user_id ps)
                   \<longleftrightarrow> count_list (map user_id (players s)) (user_id user) = 1)"
    by blast
qed

theorem handleLeave_cases_witness:
  "user_id bob \<in> set (map user_id (players (state midGame)))
   \<and> \<not> stale (state midGame)
   \<and> (\<exists>ps. handleLeave (state midGame) bob
             = ((state midGame)\<lparr>players := ps, stale := True\<rparr>,
                [Call (SendMessage
                         ''User <@bob> has left the game.\<newline>This game session become stale.\<newline>Leave the session.''
                         ''chan''
                         (Some \<lparr>components =
                                  Some [[\<lparr>style = Primary, label = Some ''Leave game'',
                                          emoji = None, custom_id = LEAVE_SESSION,
                                          disabled = None\<rparr>]],
                                allowedMentions = None\<rparr>))
                      Done,
                 Call (RemoveUserFromChannel ''bob'' ''chan'') Done],
                None)
            \<and> map user_id ps = [''alice'']
            \<and> user_id bob \<notin> set (map user_id ps))"
proof -
  have e: "user_id bob \<in> set (map user_id (players (state midGame)))" "\<not> stale (state midGame)"
    "map user_id (players (state midGame)) = [''alice'', ''bob'']" "user_id bob = ''bob''"
    "channelId (state midGame) = ''chan''"
    by code_simp+
  from handleLeave_cases [of bob "state midGame"] e(1) obtain ps where
    p: "handleLeave (state midGame) bob =
          ((state midGame)\<lparr>players := ps, stale := True\<rparr>,
           (if length ps > 0 then
              (if \<not> stale (state midGame)
               then [Call (SendMessage
                             (''User <@'' @ user_id bob
                              @ ''> has left the game.\<newline>This game session become stale.\<newline>Leave the session.'')
                             (channelId (state midGame))
                             (Some \<lparr>components =
                                      Some [[\<lparr>style = Primary, label = Some ''Leave game'',
                                              emoji = None, custom_id = LEAVE_SESSION,
                                              disabled = None\<rparr>]],
                                    allowedMentions = None\<rparr>))
                          Done]
               else [])
              @ [Call (RemoveUserFromChannel (user_id bob) (channelId (state midGame))) Done]
            else []),
           None)"
      "map user_id ps = remove1 (user_id bob) (map user_id (players (state midGame)))"
    by blast
  from p(2) e have m: "map user_id ps = [''alice'']"
    by simp
  then have "length ps > 0" "user_id bob \<notin> set (map user_id ps)"
    using e(4) by auto
  with p(1) m e show ?thesis
    by auto
qed

text \<open>
  Nothing keeps a user from joining twice, and then one entry stays behind: after the
  same user has joined twice and left once, that user is still a player.
\<close>

theorem handleLeave_joined_twice:
  "players twiceJoined = [alice, alice]
   \<and> user_id alice \<in> set (map user_id (players twiceJoined))
   \<and> players (fst (handleLeave twiceJoined alice)) = [alice]
   \<and> user_id alice \<in> set (map user_id (players (fst (handleLeave twiceJoined alice))))"
  by code_simp

subsection \<open>Persistence\<close>

text \<open>
  C8. \<open>destroy\<close> leaves the state as it is and returns it exactly when the session is
  not stale, and nothing for a stale session; \<open>initialize\<close> with the bundle returned
  for a session that is not stale restores that very state, whatever the icons of
  the instance.
\<close>

theorem destroy_initialize_roundtrip:
  "fst (destroy s) = s
   \<and> snd (destroy s) = (if stale s then None else Some s)
   \<and> (\<not> stale s \<longrightarrow> initialize icons (snd (destroy s)) = Restored s)"
  by (simp add: destroy_def initialize_def)

theorem destroy_initialize_roundtrip_witness:
  "\<not> stale (freshState (Some ''X'', Some ''O'') ''c'')
   \<and> snd (destroy (freshState (Some ''X'', Some ''O'') ''c'')) = Some (freshState (Some ''X'', Some ''O'') ''c'')
   \<and> initialize (Some ''A'', Some ''B'') (snd (destroy (freshState (Some ''X'', Some ''O'') ''c'')))
       = Restored (freshState (Some ''X'', Some ''O'') ''c'')"
proof -
  have fresh: "\<not> stale (freshState (Some ''X'', Some ''O'') ''c'')"
    by (simp add: freshState_def)
  with destroy_initialize_roundtrip [of "freshState (Some ''X'', Some ''O'') ''c''" "(Some ''A'', Some ''B'')"]
  show ?thesis
    by auto
qed

subsection \<open>Clicks that are not considered\<close>

lemma step_Event:
  "onEvent (state c) e = (state c, [], None) \<Longrightarrow> step c (Event e) = c"
  by (simp add: step_def absorb_def)

text \<open>
  C2. In a stale session a click on any control by any user leaves the whole state as
  it is (the cells, the remaining cells, the current player and the acceptance flag
  among it), throws nothing and issues no request: the session with its requests in
  flight is the same after the event.
\<close>

theorem handleButtonClick_stale:
  "stale (state c) \<Longrightarrow>
     handleButtonClick (state c) user buttonId = (state c, [], None)
     \<and> step c (Event (BUTTON_CLICK user buttonId)) = c"
proof -
  assume "stale (state c)"
  then have h: "handleButtonClick (state c) user buttonId = (state c, [], None)"
    by (simp add: handleButtonClick_def)
  then have "onEvent (state c) (BUTTON_CLICK user buttonId) = (state c, [], None)"
    by (simp add: onEvent_def)
  then have "step c (Event (BUTTON_CLICK user buttonId)) = c"
    by (rule step_Event)
  with h show ?thesis by simp
qed

theorem handleButtonClick_stale_witness:
  "stale (state afterLeave)
   \<and> gameBoardMessageDescriptor (state afterLeave) = Some (descriptor ''board'')
   \<and> currentPlayer (state afterLeave) = Some alice
   \<and> acceptSelection (state afterLeave)
   \<and> accepted ((state afterLeave)\<lparr>stale := False\<rparr>) alice ''0''
   \<and> handleButtonClick (state afterLeave) alice ''0'' = (state afterLeave, [], None)
   \<and> step afterLeave (Event (BUTTON_CLICK alice ''0'')) = afterLeave"
proof -
  have e: "stale (state afterLeave)"
    "gameBoardMessageDescriptor (state afterLeave) = Some (descriptor ''board'')"
    "currentPlayer (state afterLeave) = Some alice" "acceptSelection (state afterLeave)"
    "accepted ((state afterLeave)\<lparr>stale := False\<rparr>) alice ''0''"
    by code_simp+
  from handleButtonClick_stale [OF e(1), of alice "''0''"] e show ?thesis
    by simp
qed

text \<open>
  C10. A click whose control identity \<open>parseInt\<close> does not turn into a whole number
  from 0 to 8 (\<open>NaN\<close> for an identity that starts with no digit) changes no field of
  the state and issues no request.
\<close>

theorem handleButtonClick_not_a_cell:
  "(case parseInt buttonId of None \<Rightarrow> True | Some n \<Rightarrow> n < 0 \<or> 8 < n) \<Longrightarrow>
     handleButtonClick (state c) user buttonId = (state c, [], None)
     \<and> step c (Event (BUTTON_CLICK user buttonId)) = c"
proof -
  assume "case parseInt buttonId of None \<Rightarrow> True | Some n \<Rightarrow> n < 0 \<or> 8 < n"
  then have h: "handleButtonClick (state c) user buttonId = (state c, [], None)"
    by (auto simp add: handleButtonClick_def split: option.splits)
  then have "onEvent (state c) (BUTTON_CLICK user buttonId) = (state c, [], None)"
    by (simp add: onEvent_def)
  then have "step c (Event (BUTTON_CLICK user buttonId)) = c"
    by (rule step_Event)
  with h show ?thesis by simp
qed

lemma parseInt_examples:
  "parseInt ''leave'' = None" "parseInt ''9'' = Some 9" "parseInt ''-1'' = Some (- 1)"
  "parseInt ''4'' = Some 4"
  by (simp_all add: parseInt_def isWhiteSpace_def parseDigits_def isRadixDigit_def digitValue_def
        radixValue_def)

theorem handleButtonClick_not_a_cell_witness:
  "parseInt ''leave'' = None
   \<and> \<not> stale (state midGame)
   \<and> gameBoardMessageDescriptor (state midGame) = Some (descriptor ''board'')
   \<and> currentPlayer (state midGame) = Some alice
   \<and> acceptSelection (state midGame)
   \<and> accepted (state midGame) alice ''0''
   \<and> handleButtonClick (state midGame) alice ''leave'' = (state midGame, [], None)
   \<and> step midGame (Event (BUTTON_CLICK alice ''leave'')) = midGame"
proof -
  have e: "\<not> stale (state midGame)"
    "gameBoardMessageDescriptor (state midGame) = Some (descriptor ''board'')"
    "currentPlayer (state midGame) = Some alice" "acceptSelection (state midGame)"
    "accepted (state midGame) alice ''0''"
    by code_simp+
  from handleButtonClick_not_a_cell [of "''leave''" midGame alice] e show ?thesis
    by (simp add: parseInt_examples)
qed

subsection \<open>Cells of a 3 by 3 board\<close>

lemma small_index:
  fixes n :: int
  assumes "0 \<le> n" "n \<le> 8"
  shows "n \<in> {0, 1, 2, 3, 4, 5, 6, 7, 8}"
  using assms by (simp; arith)

lemma coord3: "gameSize s = 3 \<Longrightarrow> getCoordFromIndex s n = Some (n div 3, n - n div 3 * 3)"
  by (simp add: getCoordFromIndex_def Let_def)

lemma cell_occupant:
  assumes "board3 s" "0 \<le> n" "n \<le> 8"
  shows "cell (boardStates s) (n div 3) (n - n div 3 * 3) = Inr (occupant (boardStates s) n)"
proof -
  from assms(1) obtain a1 a2 a3 b1 b2 b3 c1 c2 c3 where
    b: "boardStates s = [[a1, a2, a3], [b1, b2, b3], [c1, c2, c3]]"
    by (rule board3_shape)
  from small_index [OF assms(2,3)] show ?thesis
    by (elim insertE emptyE) (simp_all add: b cell3 occupant3)
qed

lemma place_board3:
  assumes "length b = 3" "\<forall>r \<in> set b. length r = 3" "0 \<le> n" "n \<le> 8"
  shows "length (place b n v) = 3 \<and> (\<forall>r \<in> set (place b n v). length r = 3)"
proof -
  from assms(1) obtain r1 r2 r3 where b: "b = [r1, r2, r3]"
    by (auto simp: length_Suc_conv numeral_3_eq_3)
  with assms(2) have l: "length r1 = 3" "length r2 = 3" "length r3 = 3" by auto
  from small_index [OF assms(3,4)] show ?thesis
    by (elim insertE emptyE) (simp_all add: b l place_def setCell_def js_get_def js_set_def)
qed

lemma occupiedCount3:
  "occupiedCount [[a1, a2, a3], [b1, b2, b3], [c1, c2, c3]]
     = cnt a1 + cnt a2 + cnt a3 + cnt b1 + cnt b2 + cnt b3 + cnt c1 + cnt c2 + cnt c3"
  by (simp add: occupiedCount_def cnt_def)

lemma place3:
  "place [[a1, a2, a3], [b1, b2, b3], [c1, c2, c3]] 0 v = [[v, a2, a3], [b1, b2, b3], [c1, c2, c3]]"
  "place [[a1, a2, a3], [b1, b2, b3], [c1, c2, c3]] 1 v = [[a1, v, a3], [b1, b2, b3], [c1, c2, c3]]"
  "place [[a1, a2, a3], [b1, b2, b3], [c1, c2, c3]] 2 v = [[a1, a2, v], [b1, b2, b3], [c1, c2, c3]]"
  "place [[a1, a2, a3], [b1, b2, b3], [c1, c2, c3]] 3 v = [[a1, a2, a3], [v, b2, b3], [c1, c2, c3]]"
  "place [[a1, a2, a3], [b1, b2, b3], [c1, c2, c3]] 4 v = [[a1, a2, a3], [b1, v, b3], [c1, c2, c3]]"
  "place [[a1, a2, a3], [b1, b2, b3], [c1, c2, c3]] 5 v = [[a1, a2, a3], [b1, b2, v], [c1, c2, c3]]"
  "place [[a1, a2, a3], [b1, b2, b3], [c1, c2, c3]] 6 v = [[a1, a2, a3], [b1, b2, b3], [v, c2, c3]]"
  "place [[a1, a2, a3], [b1, b2, b3], [c1, c2, c3]] 7 v = [[a1, a2, a3], [b1, b2, b3], [c1, v, c3]]"
  "place [[a1, a2, a3], [b1, b2, b3], [c1, c2, c3]] 8 v = [[a1, a2, a3], [b1, b2, b3], [c1, c2, v]]"
  by (simp_all add: place_def setCell_def js_get_def js_set_def)

lemma place_count:
  assumes s: "board3 s" and n: "0 \<le> n" "n \<le> 8"
    and e: "occupant (boardStates s) n = None"
  shows "occupiedCount (place (boardStates s) n (Some p)) = Suc (occupiedCount (boardStates s))"
proof -
  from s obtain a1 a2 a3 b1 b2 b3 c1 c2 c3 where
    b: "boardStates s = [[a1, a2, a3], [b1, b2, b3], [c1, c2, c3]]"
    by (rule board3_shape)
  have c: "cnt None = 0" "cnt (Some p) = 1"
    by (simp_all add: cnt_def isDefined_def)
  from small_index [OF n] e show ?thesis
    by (elim insertE emptyE) (simp_all add: b place3 occupant3 occupiedCount3 c)
qed

lemma place_valid:
  assumes s: "board3 s" and n: "0 \<le> n" "n \<le> 8"
    and v: "\<forall>row \<in> set (boardStates s). \<forall>x \<in> set row. validIndex x" and p: "validIndex (Some p)"
  shows "\<forall>row \<in> set (place (boardStates s) n (Some p)). \<forall>x \<in> set row. validIndex x"
proof -
  from s obtain a1 a2 a3 b1 b2 b3 c1 c2 c3 where
    b: "boardStates s = [[a1, a2, a3], [b1, b2, b3], [c1, c2, c3]]"
    by (rule board3_shape)
  from small_index [OF n] v p show ?thesis
    by (elim insertE emptyE) (simp_all add: b place3)
qed

lemma place_occupant:
  assumes s: "board3 s" and n: "0 \<le> n" "n \<le> 8"
  shows "occupant (place (boardStates s) n v) n = v"
proof -
  from s obtain a1 a2 a3 b1 b2 b3 c1 c2 c3 where
    b: "boardStates s = [[a1, a2, a3], [b1, b2, b3], [c1, c2, c3]]"
    by (rule board3_shape)
  from small_index [OF n] show ?thesis
    by (elim insertE emptyE) (simp_all add: b place3 occupant3)
qed

lemma place_others:
  assumes s: "board3 s" and n: "0 \<le> n" "n \<le> 8" and m: "0 \<le> m" "m \<le> 8" "m \<noteq> n"
  shows "occupant (place (boardStates s) n v) m = occupant (boardStates s) m"
proof -
  from s obtain a1 a2 a3 b1 b2 b3 c1 c2 c3 where
    b: "boardStates s = [[a1, a2, a3], [b1, b2, b3], [c1, c2, c3]]"
    by (rule board3_shape)
  from small_index [OF n] small_index [OF m(1,2)] m(3) show ?thesis
    by (elim insertE emptyE) (simp_all add: b place3 occupant3)
qed

subsection \<open>The outcomes of a click\<close>

lemma validIndex_Some: "validIndex (Some p) \<longleftrightarrow> p = 0 \<or> p = 1"
  by (auto simp: validIndex_def)

lemma stateInv_board3: "stateInv s \<Longrightarrow> board3 s"
  by (simp add: stateInv_def)

lemma buildButton_placed:
  assumes "board3 s" "0 \<le> n" "n \<le> 8" "occupant (boardStates s) n = Some p"
    and "iconOf (playerIcons s) p \<noteq> None"
  shows "\<exists>button. buildButton s (n div 3) (n - n div 3 * 3) dis = Inr button"
  using assms
  by (auto simp: buildButton_def getCellIcon_def cell_occupant)

lemma buildButton_no_icon:
  assumes "board3 s" "0 \<le> n" "n \<le> 8" "occupant (boardStates s) n = Some p"
    and "iconOf (playerIcons s) p = None"
  shows "buildButton s (n div 3) (n - n div 3 * 3) dis = Inl TypeError"
  using assms
  by (simp add: buildButton_def getCellIcon_def cell_occupant)

lemma marked_board3:
  assumes "board3 s" "0 \<le> n" "n \<le> 8"
  shows "board3 (marked s n p)"
  using assms place_board3 [of "boardStates s" n "Some p"]
  by (simp add: board3_def marked_def)

lemma handleUserTurn_shape:
  assumes b: "board3 s" and n: "0 \<le> n" "n \<le> 8"
    and p: "currentPlayerIndex s = Some p"
    and d: "gameBoardMessageDescriptor s = Some md"
  shows "(occupant (boardStates s) n \<noteq> None \<and> handleUserTurn s n = (s, [Warn wrongTurnText], None))
       \<or> (occupant (boardStates s) n = None
          \<and> (\<exists>winRow. checkForWin (marked s n p) = Inr (Some winRow)
                \<and> handleUserTurn s n =
                    ((marked s n p)\<lparr>stale := True\<rparr>,
                     [Call (DeleteMessage (channelId s) (lastTurnMessageId s)) (Win_retracted winRow)],
                     None)))
       \<or> (occupant (boardStates s) n = None
          \<and> checkForWin (marked s n p) = Inr None
          \<and> iconOf (playerIcons s) p \<noteq> None
          \<and> (\<exists>button. handleUserTurn s n =
                    ((marked s n p)\<lparr>acceptSelection := False\<rparr>,
                     [Call (ReplaceControl (channelId s) (md_messageId md) (toString n) button)
                        UserTurn_replaced],
                     None)))
       \<or> (occupant (boardStates s) n = None
          \<and> checkForWin (marked s n p) = Inr None
          \<and> iconOf (playerIcons s) p = None
          \<and> handleUserTurn s n = ((marked s n p)\<lparr>acceptSelection := False\<rparr>, [], Some TypeError))"
proof (cases "occupant (boardStates s) n")
  case (Some q)
  with b n show ?thesis
    by (simp add: handleUserTurn_def coord3 board3_def cell_occupant)
next
  case None
  have g: "gameSize s = 3" using b by (simp add: board3_def)
  have m3: "board3 (marked s n p)" using b n by (rule marked_board3)
  have w: "checkForWin (marked s n p) = Inr (find (lineOwned (boardStates (marked s n p))) scanOrder)"
    using m3 by (rule checkForWin_find)
  have u: "s\<lparr>possibleTurnsCount := possibleTurnsCount s - 1,
            boardStates := setCell (boardStates s) (n div 3) (n - n div 3 * 3) (Some p)\<rparr>
          = marked s n p"
    by (simp add: marked_def place_def)
  show ?thesis
  proof (cases "find (lineOwned (boardStates (marked s n p))) scanOrder")
    case (Some winRow)
    with None w b n p u have "handleUserTurn s n =
                    ((marked s n p)\<lparr>stale := True\<rparr>,
                     [Call (DeleteMessage (channelId s) (lastTurnMessageId s)) (Win_retracted winRow)],
                     None)"
      by (simp add: handleUserTurn_def coord3 g cell_occupant Let_def renderWinMessage_def)
         (simp add: marked_def)
    with None w Some show ?thesis by simp
  next
    case nowin: None
    let ?s3 = "(marked s n p)\<lparr>acceptSelection := False\<rparr>"
    have b3: "board3 ?s3"
      using m3 by (simp add: board3_def)
    have o3: "occupant (boardStates ?s3) n = Some p"
      using place_occupant [OF b n] by (simp add: marked_def)
    have i3: "playerIcons ?s3 = playerIcons s"
      by (simp add: marked_def)
    show ?thesis
    proof (cases "iconOf (playerIcons s) p")
      case (Some icon)
      then have "iconOf (playerIcons ?s3) p \<noteq> None"
        by (simp add: i3)
      from buildButton_placed [OF b3 n o3 this, of False] obtain button where
        bb: "buildButton ?s3 (n div 3) (n - n div 3 * 3) False = Inr button"
        by blast
      from None w b n p u nowin d bb have "handleUserTurn s n =
                    (?s3,
                     [Call (ReplaceControl (channelId s) (md_messageId md) (toString n) button)
                        UserTurn_replaced],
                     None)"
        by (simp add: handleUserTurn_def coord3 g cell_occupant Let_def)
           (simp add: marked_def)
      with None w nowin Some show ?thesis by auto
    next
      case noicon: None
      then have "iconOf (playerIcons ?s3) p = None"
        by (simp add: i3)
      from buildButton_no_icon [OF b3 n o3 this, of False]
      have bb: "buildButton ?s3 (n div 3) (n - n div 3 * 3) False = Inl TypeError" .
      from None w b n p u nowin d bb have "handleUserTurn s n = (?s3, [], Some TypeError)"
        by (simp add: handleUserTurn_def coord3 g cell_occupant Let_def)
           (simp add: marked_def)
      with None w nowin noicon show ?thesis by auto
    qed
  qed
qed

lemma handleButtonClick_shape:
  assumes i: "stateInv s"
  shows "(\<exists>effects err. handleButtonClick s user b = (s, effects, err)
            \<and> map snd (calls effects) \<in> {[], [Notice_sent]}
            \<and> timeouts effects = []
            \<and> (\<forall>n p. \<not> places s user b n p))
       \<or> (\<exists>n p winRow. places s user b n p
            \<and> checkForWin (marked s n p) = Inr (Some winRow)
            \<and> handleButtonClick s user b =
                 ((marked s n p)\<lparr>stale := True\<rparr>,
                  [Call (DeleteMessage (channelId s) (lastTurnMessageId s)) (Win_retracted winRow)],
                  None))
       \<or> (\<exists>n p button md. places s user b n p
            \<and> checkForWin (marked s n p) = Inr None
            \<and> iconOf (playerIcons s) p \<noteq> None
            \<and> gameBoardMessageDescriptor s = Some md
            \<and> handleButtonClick s user b =
                 ((marked s n p)\<lparr>acceptSelection := False\<rparr>,
                  [Call (ReplaceControl (channelId s) (md_messageId md) (toString n) button)
                     UserTurn_replaced],
                  None))
       \<or> (\<exists>n p. places s user b n p
            \<and> checkForWin (marked s n p) = Inr None
            \<and> iconOf (playerIcons s) p = None
            \<and> handleButtonClick s user b =
                 ((marked s n p)\<lparr>acceptSelection := False\<rparr>, [], Some TypeError))"
proof -
  let ?guard = "\<not> stale s \<and> (\<exists>n. parseInt b = Some n \<and> 0 \<le> n \<and> n \<le> 8)
                \<and> gameBoardMessageDescriptor s \<noteq> None"
  show ?thesis
  proof (cases ?guard)
    case False
    then have "handleButtonClick s user b = (s, [], None)"
      by (auto simp: handleButtonClick_def Let_def split: option.splits)
    moreover from False have "\<forall>n p. \<not> places s user b n p"
      by (auto simp: places_def)
    ultimately show ?thesis by simp
  next
    case True
    then obtain n md where n: "parseInt b = Some n" "0 \<le> n" "n \<le> 8"
      and ns: "\<not> stale s" and d: "gameBoardMessageDescriptor s = Some md"
      by auto
    show ?thesis
    proof (cases "currentPlayer s")
      case None
      with n ns d have "handleButtonClick s user b = (s, [], Some TypeError)"
        by (simp add: handleButtonClick_def Let_def)
      moreover from None have "\<forall>n p. \<not> places s user b n p"
        by (simp add: places_def)
      ultimately show ?thesis by simp
    next
      case (Some pl)
      then obtain p where p: "currentPlayerIndex s = Some p"
        by (auto simp: currentPlayer_def split: option.splits)
      show ?thesis
      proof (cases "user_id user \<noteq> user_id pl \<or> \<not> acceptSelection s")
        case True
        with n ns d Some have "\<exists>effects. handleButtonClick s user b = (s, effects, None)
              \<and> map snd (calls effects) = [Notice_sent] \<and> timeouts effects = []"
          by (auto simp: handleButtonClick_def Let_def)
        moreover from True Some have "\<forall>n p. \<not> places s user b n p"
          by (auto simp: places_def)
        ultimately show ?thesis by auto
      next
        case False
        with n ns d Some have h: "handleButtonClick s user b = handleUserTurn s n"
          by (simp add: handleButtonClick_def Let_def)
        from False n ns d Some p have pl: "occupant (boardStates s) n = None \<Longrightarrow> places s user b n p"
          by (simp add: places_def)
        from n p have np: "\<And>n' p'. places s user b n' p' \<Longrightarrow> n' = n \<and> p' = p"
          by (simp add: places_def)
        from handleUserTurn_shape [OF stateInv_board3 [OF i] n(2,3) p d]
        show ?thesis
        proof (elim disjE conjE exE)
          assume "occupant (boardStates s) n \<noteq> None"
            and "handleUserTurn s n = (s, [Warn wrongTurnText], None)"
          with h np show ?thesis
            by (auto simp: places_def)
        next
          fix winRow
          assume "occupant (boardStates s) n = None"
            and "checkForWin (marked s n p) = Inr (Some winRow)"
            and "handleUserTurn s n =
                    ((marked s n p)\<lparr>stale := True\<rparr>,
                     [Call (DeleteMessage (channelId s) (lastTurnMessageId s)) (Win_retracted winRow)],
                     None)"
          with h pl show ?thesis by metis
        next
          fix button
          assume "occupant (boardStates s) n = None"
            and "checkForWin (marked s n p) = Inr None"
            and "iconOf (playerIcons s) p \<noteq> None"
            and "handleUserTurn s n =
                    ((marked s n p)\<lparr>acceptSelection := False\<rparr>,
                     [Call (ReplaceControl (channelId s) (md_messageId md) (toString n) button)
                        UserTurn_replaced],
                     None)"
          with h pl d show ?thesis by metis
        next
          assume "occupant (boardStates s) n = None"
            and "checkForWin (marked s n p) = Inr None"
            and "iconOf (playerIcons s) p = None"
            and "handleUserTurn s n = ((marked s n p)\<lparr>acceptSelection := False\<rparr>, [], Some TypeError)"
          with h pl show ?thesis by metis
        qed
      qed
    qed
  qed
qed

subsection \<open>The state invariant\<close>

lemma sendTurnMessage_shape:
  "\<exists>effects err. sendTurnMessage s = (s, effects, err)
     \<and> (map snd (calls effects) = [] \<or> map snd (calls effects) = [TurnNotification_sent])
     \<and> timeouts effects = []"
  by (auto simp: sendTurnMessage_def split: option.splits)

lemma sendTurnNotification_shape:
  "\<exists>effects err. sendTurnNotification s = (s, effects, err)
     \<and> (map snd (calls effects) = [] \<or> map snd (calls effects) = [TurnNotification_retracted]
         \<or> map snd (calls effects) = [TurnNotification_sent])
     \<and> timeouts effects = []"
  using sendTurnMessage_shape [of s]
  by (auto simp: sendTurnNotification_def)

lemma js_rem_flip: "validIndex (Some i) \<Longrightarrow> js_rem (i + 1) 2 = (i + 1) mod 2"
  by (auto simp: validIndex_Some js_rem_def)

lemma validIndex_flip: "validIndex (Some i) \<Longrightarrow> validIndex (Some ((i + 1) mod 2))"
  by (auto simp: validIndex_Some)

lemma stateInv_marked:
  assumes i: "stateInv s" and pl: "places s user b n p"
  shows "stateInv ((marked s n p)\<lparr>stale := True\<rparr>)"
    and "stateInv ((marked s n p)\<lparr>acceptSelection := False\<rparr>)"
proof -
  from i have b3: "board3 s" by (simp add: stateInv_def)
  from pl have n: "0 \<le> n" "n \<le> 8" and e: "occupant (boardStates s) n = None"
    and p: "currentPlayerIndex s = Some p"
    by (simp_all add: places_def)
  from i p have vp: "validIndex (Some p)" by (simp add: stateInv_def)
  from i have v: "\<forall>row \<in> set (boardStates s). \<forall>x \<in> set row. validIndex x"
    by (simp add: stateInv_def)
  have m3: "board3 (marked s n p)" using b3 n by (rule marked_board3)
  have c: "occupiedCount (boardStates (marked s n p)) = Suc (occupiedCount (boardStates s))"
    using place_count [OF b3 n e] by (simp add: marked_def)
  have v': "\<forall>row \<in> set (boardStates (marked s n p)). \<forall>x \<in> set row. validIndex x"
    using place_valid [OF b3 n v vp] by (simp add: marked_def)
  have rest: "possibleTurnsCount (marked s n p) = possibleTurnsCount s - 1"
    "players (marked s n p) = players s" "started (marked s n p) = started s"
    "stale (marked s n p) = stale s" "currentPlayerIndex (marked s n p) = currentPlayerIndex s"
    "gameBoardMessageDescriptor (marked s n p) = gameBoardMessageDescriptor s"
    by (simp_all add: marked_def)
  from i m3 c v' rest show "stateInv ((marked s n p)\<lparr>stale := True\<rparr>)"
    by (simp add: stateInv_def board3_def)
  from i m3 c v' rest show "stateInv ((marked s n p)\<lparr>acceptSelection := False\<rparr>)"
    by (simp add: stateInv_def board3_def)
qed

lemma stateInv_handleButtonClick:
  assumes "stateInv s"
  shows "stateInv (fst (handleButtonClick s user b))"
  using handleButtonClick_shape [OF assms, of user b] assms
  by (elim disjE exE conjE) (simp_all add: stateInv_marked)

lemma length_splice1: "length (splice1 xs i) \<le> length xs"
  by (simp add: splice1_def)

lemma stateInv_handleLeave:
  assumes "stateInv s"
  shows "stateInv (fst (handleLeave s user))"
proof -
  have "length (splice1 (players s) (indexOf (map user_id (players s)) (user_id user)))
          \<le> length (players s)"
    by (rule length_splice1)
  with assms show ?thesis
    by (auto simp: handleLeave_def Let_def stateInv_def board3_def)
qed

lemma startGame_shape:
  "\<exists>effects err. startGame s = (s\<lparr>started := True\<rparr>, effects, err)
     \<and> (map snd (calls effects) = [] \<or> map snd (calls effects) = [StartGame_boardSent])
     \<and> timeouts effects = []"
  by (auto simp: startGame_def Let_def split: sum.splits)

lemma handleJoin_shape:
  "(\<exists>r. handleJoin s user = (s, [Call r Done], None))
   \<or> \<not> started s \<and> \<not> stale s \<and> length (players s) \<noteq> 1
      \<and> (\<exists>effects. handleJoin s user = (s\<lparr>players := players s @ [user]\<rparr>, effects, None)
            \<and> (\<forall>k \<in> set (map snd (calls effects)). k = Done) \<and> timeouts effects = [])
   \<or> \<not> started s \<and> \<not> stale s \<and> length (players s) = 1
      \<and> (\<exists>effects err. handleJoin s user =
              (s\<lparr>players := players s @ [user], started := True\<rparr>, effects, err)
            \<and> map snd (calls effects) \<in> {[Done, Done], [Done, Done, StartGame_boardSent]}
            \<and> timeouts effects = [])"
proof (cases "started s \<or> stale s")
  case True
  then show ?thesis by (auto simp: handleJoin_def)
next
  case False
  show ?thesis
  proof (cases "length (players s) = 1")
    case True
    from startGame_shape [of "s\<lparr>players := players s @ [user]\<rparr>"]
    obtain effects err where
      "startGame (s\<lparr>players := players s @ [user]\<rparr>)
         = (s\<lparr>players := players s @ [user], started := True\<rparr>, effects, err)"
      "map snd (calls effects) = [] \<or> map snd (calls effects) = [StartGame_boardSent]"
      "timeouts effects = []"
      by auto
    with False True show ?thesis
      by (auto simp: handleJoin_def Let_def)
  next
    case n1: False
    with False show ?thesis
      by (auto simp: handleJoin_def Let_def)
  qed
qed

lemma stateInv_handleJoin:
  assumes "stateInv s"
  shows "stateInv (fst (handleJoin s user))"
  using handleJoin_shape [of s user] assms
  by (elim disjE exE conjE) (auto simp: stateInv_def board3_def le_Suc_eq)

lemma stateInv_onEvent:
  assumes "stateInv s"
  shows "stateInv (fst (onEvent s e))"
  using assms
  by (cases e) (simp_all add: onEvent_def stateInv_handleJoin stateInv_handleLeave
      stateInv_handleButtonClick)

subsection \<open>Requests in flight\<close>

lemma map_dropAt: "map f (dropAt n xs) = dropAt n (map f xs)"
  by (simp add: dropAt_def take_map drop_map)

lemma set_dropAt: "set (dropAt n xs) \<subseteq> set xs"
  by (auto simp: dropAt_def dest: in_set_takeD in_set_dropD)

lemma filter_dropAt_le: "length (filter P (dropAt n xs)) \<le> length (filter P xs)"
proof -
  have "length (filter P xs) = length (filter P (take n xs)) + length (filter P (drop n xs))"
    by (metis append_take_drop_id filter_append length_append)
  moreover have "length (filter P (drop (Suc n) xs)) \<le> length (filter P (drop n xs))"
    by (cases "n < length xs") (auto simp: Cons_nth_drop_Suc [symmetric])
  ultimately show ?thesis
    by (simp add: dropAt_def)
qed

lemma dropAt_only:
  assumes "n < length xs" "P (xs ! n)" "length (filter P xs) \<le> 1"
  shows "\<forall>x \<in> set (dropAt n xs). \<not> P x"
proof -
  have "xs = take n xs @ xs ! n # drop (Suc n) xs"
    using assms(1) by (rule id_take_nth_drop)
  then have "length (filter P xs)
      = length (filter P (take n xs)) + length (filter P (xs ! n # drop (Suc n) xs))"
    by (metis filter_append length_append)
  with assms(2,3) have "filter P (take n xs) = []" "filter P (drop (Suc n) xs) = []"
    by auto
  then show ?thesis
    by (auto simp: dropAt_def filter_empty_conv)
qed

lemma no_cycle_filter: "(\<forall>x \<in> set xs. \<not> P x) \<Longrightarrow> filter P (xs @ ys) = filter P ys"
  by (simp add: filter_empty_conv)

lemma isTurnCycle_simps:
  "isTurnCycle StartGame_boardSent" "isTurnCycle TurnNotification_retracted"
  "isTurnCycle TurnNotification_sent" "isTurnCycle UserTurn_replaced"
  "\<not> isTurnCycle Done" "\<not> isTurnCycle Notice_sent" "\<not> isTurnCycle Draw_retracted"
  "\<not> isTurnCycle (Win_retracted w)" "\<not> isTurnCycle (Win_edited w)"
  by (simp_all add: isTurnCycle_def)

text \<open>After the only turn-cycle continuation was taken out, only the new ones count.\<close>

lemma cycleOK_replace:
  assumes "\<forall>k \<in> set rest. \<not> isTurnCycle k"
  shows "cycleOK s (rest @ new) prev \<longleftrightarrow> cycleOK s new prev"
proof -
  have f: "filter isTurnCycle (rest @ new) = filter isTurnCycle new"
    using assms by (rule no_cycle_filter)
  have m: "\<And>k. isTurnCycle k \<Longrightarrow> k \<in> set (rest @ new) \<longleftrightarrow> k \<in> set new"
    using assms by auto
  show ?thesis
    unfolding cycleOK_def f
    by (simp only: m isTurnCycle_simps)
qed

text \<open>Fewer requests in flight, more that belong to no turn cycle, and a state that
  differs at most in fields no turn cycle depends on or by being stale.\<close>

lemma cycleOK_weaken:
  assumes c: "cycleOK s ks prev"
    and r: "set rest \<subseteq> set ks" "length (filter isTurnCycle rest) \<le> length (filter isTurnCycle ks)"
    and n: "\<forall>k \<in> set new. \<not> isTurnCycle k"
    and s: "acceptSelection s' = acceptSelection s" "started s' = started s"
      "gameBoardMessageDescriptor s' = gameBoardMessageDescriptor s"
      "currentPlayerIndex s' = currentPlayerIndex s" "stale s \<longrightarrow> stale s'"
  shows "cycleOK s' (rest @ new) prev"
proof -
  have f: "filter isTurnCycle (rest @ new) = filter isTurnCycle rest"
    using n by (simp add: filter_empty_conv)
  have m: "\<And>k. isTurnCycle k \<Longrightarrow> k \<in> set (rest @ new) \<Longrightarrow> k \<in> set ks"
    using n r(1) by auto
  have e: "filter isTurnCycle ks = [] \<Longrightarrow> filter isTurnCycle rest = []"
    using r(2) by simp
  have nx: "nextOK prev s' = nextOK prev s"
    by (simp add: nextOK_def s split: option.splits)
  from c have c1: "length (filter isTurnCycle ks) \<le> 1"
    and c2: "acceptSelection s \<longrightarrow> filter isTurnCycle ks = []"
    and c3: "\<not> started s \<longrightarrow>
          filter isTurnCycle ks = [] \<and> gameBoardMessageDescriptor s = None
          \<and> \<not> acceptSelection s \<and> prev = None"
    and c4: "StartGame_boardSent \<in> set ks \<longrightarrow> gameBoardMessageDescriptor s = None \<and> prev = None"
    and c5: "UserTurn_replaced \<in> set ks \<longrightarrow>
          prev \<noteq> None \<and> currentPlayerIndex s = prev \<and> gameBoardMessageDescriptor s \<noteq> None"
    and c6: "TurnNotification_retracted \<in> set ks \<or> TurnNotification_sent \<in> set ks \<longrightarrow>
          nextOK prev s \<and> gameBoardMessageDescriptor s \<noteq> None"
    and c7: "acceptSelection s \<and> \<not> stale s \<longrightarrow> nextOK prev s"
    by (simp_all add: cycleOK_def)
  have "length (filter isTurnCycle (rest @ new)) \<le> 1"
    using c1 r(2) f by simp
  moreover have "acceptSelection s' \<longrightarrow> filter isTurnCycle (rest @ new) = []"
    using c2 e f s by simp
  moreover have "\<not> started s' \<longrightarrow>
          filter isTurnCycle (rest @ new) = [] \<and> gameBoardMessageDescriptor s' = None
          \<and> \<not> acceptSelection s' \<and> prev = None"
    using c3 e f s by simp
  moreover have "StartGame_boardSent \<in> set (rest @ new) \<longrightarrow>
          gameBoardMessageDescriptor s' = None \<and> prev = None"
    using c4 m [of StartGame_boardSent] s by (simp add: isTurnCycle_simps)
  moreover have "UserTurn_replaced \<in> set (rest @ new) \<longrightarrow>
          prev \<noteq> None \<and> currentPlayerIndex s' = prev \<and> gameBoardMessageDescriptor s' \<noteq> None"
    using c5 m [of UserTurn_replaced] s by (simp add: isTurnCycle_simps)
  moreover have "TurnNotification_retracted \<in> set (rest @ new)
          \<or> TurnNotification_sent \<in> set (rest @ new) \<longrightarrow>
          nextOK prev s' \<and> gameBoardMessageDescriptor s' \<noteq> None"
    using c6 m [of TurnNotification_retracted] m [of TurnNotification_sent] s nx
    by (auto simp: isTurnCycle_simps)
  moreover have "acceptSelection s' \<and> \<not> stale s' \<longrightarrow> nextOK prev s'"
    using c7 s nx by auto
  ultimately show ?thesis
    unfolding cycleOK_def by blast
qed

lemma state_absorb: "state (absorb c rest out) = fst out"
  by (cases out) (simp add: absorb_def)

lemma conts_absorb: "conts (absorb c rest out) = map snd rest @ map snd (calls (fst (snd out)))"
  by (cases out) (simp add: absorb_def conts_def)

lemma cycleOK_weakOutcome:
  assumes "cycleOK s ks prev" "weakOutcome s out"
    and "set rest \<subseteq> set ks" "length (filter isTurnCycle rest) \<le> length (filter isTurnCycle ks)"
  shows "cycleOK (fst out) (rest @ map snd (calls (fst (snd out)))) prev"
proof -
  obtain s' effects err where o: "out = (s', effects, err)"
    by (cases out) auto
  with assms(2) show ?thesis
    using cycleOK_weaken [OF assms(1) assms(3) assms(4), of "map snd (calls effects)" s']
    by (simp add: weakOutcome_def)
qed

lemma handleLeave_weak: "weakOutcome s (handleLeave s user)"
  by (simp add: handleLeave_def Let_def weakOutcome_def leaveRow_def isTurnCycle_simps)

lemma weak_resume:
  assumes "\<not> isTurnCycle k"
  shows "weakOutcome s (resume k md coin s)"
proof (cases k)
  case (Win_retracted w)
  then show ?thesis
    by (auto simp: resume_def renderWinRetracted_def weakOutcome_def isTurnCycle_simps
        split: sum.splits option.splits)
next
  case (Win_edited w)
  then show ?thesis
    by (auto simp: resume_def renderWinEdited_def weakOutcome_def isTurnCycle_simps
        split: sum.splits option.splits)
qed (use assms in \<open>simp_all add: resume_def weakOutcome_def isTurnCycle_simps noticeSent_def
      endGameDrawRetracted_def Let_def\<close>)

lemma stateInv_resume:
  assumes i: "stateInv s"
  shows "stateInv (fst (resume k md coin s))"
proof (cases k)
  case StartGame_boardSent
  obtain effects err where
    "sendTurnNotification (s\<lparr>gameBoardMessageDescriptor := Some md,
        currentPlayerIndex := Some (if coin then 1 else 0)\<rparr>)
     = (s\<lparr>gameBoardMessageDescriptor := Some md,
          currentPlayerIndex := Some (if coin then 1 else 0)\<rparr>, effects, err)"
    using sendTurnNotification_shape by blast
  with i StartGame_boardSent show ?thesis
    by (simp add: resume_def startGameBoardSent_def Let_def stateInv_def board3_def validIndex_def)
next
  case UserTurn_replaced
  show ?thesis
  proof (cases "currentPlayerIndex s")
    case None
    obtain effects err where
      "sendTurnNotification (s\<lparr>currentPlayerIndex := None\<rparr>)
         = (s\<lparr>currentPlayerIndex := None\<rparr>, effects, err)"
      using sendTurnNotification_shape by blast
    with i None UserTurn_replaced show ?thesis
      by (simp add: resume_def userTurnReplaced_def endGameDraw_def Let_def stateInv_def
          board3_def validIndex_def)
  next
    case (Some p)
    with i have vp: "validIndex (Some p)" by (simp add: stateInv_def)
    obtain effects err where
      "sendTurnNotification (s\<lparr>currentPlayerIndex := Some (js_rem (p + 1) 2)\<rparr>)
         = (s\<lparr>currentPlayerIndex := Some (js_rem (p + 1) 2)\<rparr>, effects, err)"
      using sendTurnNotification_shape by blast
    with i Some UserTurn_replaced validIndex_flip [OF vp] show ?thesis
      by (simp add: resume_def userTurnReplaced_def endGameDraw_def Let_def stateInv_def
          board3_def js_rem_flip [OF vp])
  qed
next
  case TurnNotification_retracted
  with i sendTurnMessage_shape [of s] show ?thesis
    by (auto simp: resume_def)
next
  case (Win_retracted w)
  with i show ?thesis
    by (auto simp: resume_def renderWinRetracted_def split: sum.splits option.splits)
next
  case (Win_edited w)
  with i show ?thesis
    by (auto simp: resume_def renderWinEdited_def split: sum.splits option.splits)
qed (use i in \<open>simp_all add: resume_def turnNotificationSent_def noticeSent_def
      endGameDrawRetracted_def Let_def stateInv_def board3_def\<close>)

lemma accepted_places:
  assumes "stateInv s"
  shows "accepted s user b \<longleftrightarrow> (\<exists>n p. places s user b n p)"
  using handleButtonClick_shape [OF assms, of user b]
  by (elim disjE exE conjE) (auto simp: accepted_def marked_def)

lemma places_unique: "places s user b n p \<Longrightarrow> places s user b n' p' \<Longrightarrow> n' = n \<and> p' = p"
  by (simp add: places_def)

lemma cycle_member:
  assumes "cycleOK s ks prev" "k \<in> set ks" "isTurnCycle k"
  shows "\<not> acceptSelection s" "started s" "length (filter isTurnCycle ks) \<le> 1"
proof -
  from assms(2,3) have "filter isTurnCycle ks \<noteq> []"
    by (auto simp: filter_empty_conv)
  with assms(1) show "\<not> acceptSelection s" "started s" "length (filter isTurnCycle ks) \<le> 1"
    by (auto simp: cycleOK_def)
qed

lemma cycleOK_resume_cycle:
  assumes si: "stateInv s" and c: "cycleOK s ks prev"
    and n: "n < length ks" and k: "isTurnCycle (ks ! n)"
  shows "cycleOK (fst (resume (ks ! n) md coin s))
           (dropAt n ks @ map snd (calls (fst (snd (resume (ks ! n) md coin s))))) prev"
proof -
  from n have mem: "ks ! n \<in> set ks" by simp
  note cm = cycle_member [OF c mem k]
  have only: "\<forall>x \<in> set (dropAt n ks). \<not> isTurnCycle x"
    using n k cm(3) by (rule dropAt_only)
  show ?thesis
    unfolding cycleOK_replace [OF only]
  proof (cases "ks ! n")
    case StartGame_boardSent
    with c mem have g: "gameBoardMessageDescriptor s = None" "prev = None"
      by (auto simp: cycleOK_def)
    let ?s = "s\<lparr>gameBoardMessageDescriptor := Some md,
                 currentPlayerIndex := Some (if coin then 1 else 0)\<rparr>"
    from sendTurnNotification_shape [of ?s] obtain effects err where
      e: "sendTurnNotification ?s = (?s, effects, err)"
        "map snd (calls effects) = [] \<or> map snd (calls effects) = [TurnNotification_retracted]
         \<or> map snd (calls effects) = [TurnNotification_sent]"
      by auto
    have r: "resume (ks ! n) md coin s = (?s, effects, err)"
      using StartGame_boardSent e(1) by (simp add: resume_def startGameBoardSent_def Let_def)
    from e(2) cm g show "cycleOK (fst (resume (ks ! n) md coin s))
           (map snd (calls (fst (snd (resume (ks ! n) md coin s))))) prev"
      unfolding r
      by (elim disjE) (simp_all add: cycleOK_def isTurnCycle_simps nextOK_def)
  next
    case TurnNotification_retracted
    with c mem have g: "nextOK prev s" "gameBoardMessageDescriptor s \<noteq> None"
      by (auto simp: cycleOK_def)
    from sendTurnMessage_shape [of s] obtain effects err where
      e: "sendTurnMessage s = (s, effects, err)"
        "map snd (calls effects) = [] \<or> map snd (calls effects) = [TurnNotification_sent]"
      by auto
    have r: "resume (ks ! n) md coin s = (s, effects, err)"
      using TurnNotification_retracted e(1) by (simp add: resume_def)
    from e(2) cm g show "cycleOK (fst (resume (ks ! n) md coin s))
           (map snd (calls (fst (snd (resume (ks ! n) md coin s))))) prev"
      unfolding r
      by (elim disjE) (simp_all add: cycleOK_def isTurnCycle_simps)
  next
    case TurnNotification_sent
    with c mem have g: "nextOK prev s" "gameBoardMessageDescriptor s \<noteq> None"
      by (auto simp: cycleOK_def)
    have r: "resume (ks ! n) md coin s
        = (s\<lparr>lastTurnMessageId := Some (md_messageId md), acceptSelection := True\<rparr>, [], None)"
      using TurnNotification_sent by (simp add: resume_def turnNotificationSent_def Let_def)
    from cm g show "cycleOK (fst (resume (ks ! n) md coin s))
           (map snd (calls (fst (snd (resume (ks ! n) md coin s))))) prev"
      unfolding r
      by (simp add: cycleOK_def nextOK_def split: option.splits)
  next
    case UserTurn_replaced
    with c mem obtain p where g: "prev = Some p" "currentPlayerIndex s = Some p"
      "gameBoardMessageDescriptor s \<noteq> None"
      by (auto simp: cycleOK_def)
    with si have vp: "validIndex (Some p)" by (simp add: stateInv_def)
    show "cycleOK (fst (resume (ks ! n) md coin s))
           (map snd (calls (fst (snd (resume (ks ! n) md coin s))))) prev"
    proof (cases "possibleTurnsCount s = 0")
      case True
      then have r: "resume (ks ! n) md coin s
          = (s, [Call (DeleteMessage (channelId s) (lastTurnMessageId s)) Draw_retracted], None)"
        using UserTurn_replaced by (simp add: resume_def userTurnReplaced_def endGameDraw_def)
      from cm show ?thesis
        unfolding r by (simp add: cycleOK_def isTurnCycle_simps)
    next
      case False
      let ?s = "s\<lparr>currentPlayerIndex := Some ((p + 1) mod 2)\<rparr>"
      from sendTurnNotification_shape [of ?s] obtain effects err where
        e: "sendTurnNotification ?s = (?s, effects, err)"
          "map snd (calls effects) = [] \<or> map snd (calls effects) = [TurnNotification_retracted]
           \<or> map snd (calls effects) = [TurnNotification_sent]"
        by auto
      have r: "resume (ks ! n) md coin s = (?s, effects, err)"
        using UserTurn_replaced False g e(1)
        by (simp add: resume_def userTurnReplaced_def Let_def js_rem_flip [OF vp])
      from e(2) cm g show ?thesis
        unfolding r
        by (elim disjE) (simp_all add: cycleOK_def isTurnCycle_simps nextOK_def)
    qed
  qed (use k in \<open>simp_all add: isTurnCycle_simps\<close>)
qed

lemma cycleOK_event:
  assumes si: "stateInv s" and c: "cycleOK s ks prev"
  shows "cycleOK (fst (onEvent s e)) (ks @ map snd (calls (fst (snd (onEvent s e)))))
           (case e of
              BUTTON_CLICK user b \<Rightarrow> if accepted s user b then currentPlayerIndex s else prev
            | _ \<Rightarrow> prev)"
proof (cases e)
  case (JOIN user)
  from handleJoin_shape [of s user] show ?thesis
  proof (elim disjE conjE exE)
    fix r
    assume "handleJoin s user = (s, [Call r Done], None)"
    then have "weakOutcome s (handleJoin s user)"
      by (simp add: weakOutcome_def isTurnCycle_simps)
    from cycleOK_weakOutcome [OF c this, of ks] JOIN show ?thesis
      by (simp add: onEvent_def)
  next
    fix effects
    assume "handleJoin s user = (s\<lparr>players := players s @ [user]\<rparr>, effects, None)"
      and "\<forall>k \<in> set (map snd (calls effects)). k = Done"
    then have "weakOutcome s (handleJoin s user)"
      by (auto simp: weakOutcome_def isTurnCycle_simps)
    from cycleOK_weakOutcome [OF c this, of ks] JOIN show ?thesis
      by (simp add: onEvent_def)
  next
    fix effects err
    assume ns: "\<not> started s"
      and h: "handleJoin s user =
              (s\<lparr>players := players s @ [user], started := True\<rparr>, effects, err)"
      and k: "map snd (calls effects) \<in> {[Done, Done], [Done, Done, StartGame_boardSent]}"
    from c ns have z: "filter isTurnCycle ks = []" "gameBoardMessageDescriptor s = None"
      "\<not> acceptSelection s" "prev = None"
      by (simp_all add: cycleOK_def)
    from z(1) have nk: "\<forall>x \<in> set ks. \<not> isTurnCycle x"
      by (simp add: filter_empty_conv)
    have "cycleOK (s\<lparr>players := players s @ [user], started := True\<rparr>)
            (ks @ map snd (calls effects)) prev"
      unfolding cycleOK_replace [OF nk]
      using k z by (auto simp: cycleOK_def isTurnCycle_simps)
    with JOIN h show ?thesis
      by (simp add: onEvent_def)
  qed
next
  case (LEAVE user)
  from cycleOK_weakOutcome [OF c handleLeave_weak, of ks user] LEAVE show ?thesis
    by (simp add: onEvent_def)
next
  case OTHER
  with c show ?thesis
    by (simp add: onEvent_def)
next
  case (BUTTON_CLICK user b)
  note acc = accepted_places [OF si, of user b]
  from handleButtonClick_shape [OF si, of user b] show ?thesis
  proof (elim disjE conjE exE)
    fix effects err
    assume h: "handleButtonClick s user b = (s, effects, err)"
      and k: "map snd (calls effects) \<in> {[], [Notice_sent]}"
      and np: "\<forall>n p. \<not> places s user b n p"
    from h k have "weakOutcome s (handleButtonClick s user b)"
      by (auto simp: weakOutcome_def isTurnCycle_simps)
    from cycleOK_weakOutcome [OF c this, of ks] BUTTON_CLICK np acc show ?thesis
      by (simp add: onEvent_def)
  next
    fix n p winRow
    assume pl: "places s user b n p"
      and h: "handleButtonClick s user b =
                 ((marked s n p)\<lparr>stale := True\<rparr>,
                  [Call (DeleteMessage (channelId s) (lastTurnMessageId s)) (Win_retracted winRow)],
                  None)"
    from pl have a: "acceptSelection s" "currentPlayerIndex s = Some p"
      "gameBoardMessageDescriptor s \<noteq> None"
      by (simp_all add: places_def)
    from c a have z: "filter isTurnCycle ks = []" "started s"
      by (auto simp: cycleOK_def)
    from z(1) have nk: "\<forall>x \<in> set ks. \<not> isTurnCycle x"
      by (simp add: filter_empty_conv)
    have "cycleOK ((marked s n p)\<lparr>stale := True\<rparr>) (ks @ [Win_retracted winRow]) (Some p)"
      unfolding cycleOK_replace [OF nk]
      using z a by (simp add: cycleOK_def isTurnCycle_simps marked_def)
    with BUTTON_CLICK h pl acc a show ?thesis
      by (auto simp: onEvent_def)
  next
    fix n p button md
    assume pl: "places s user b n p"
      and h: "handleButtonClick s user b =
                 ((marked s n p)\<lparr>acceptSelection := False\<rparr>,
                  [Call (ReplaceControl (channelId s) (md_messageId md) (toString n) button)
                     UserTurn_replaced],
                  None)"
    from pl have a: "acceptSelection s" "currentPlayerIndex s = Some p"
      "gameBoardMessageDescriptor s \<noteq> None"
      by (simp_all add: places_def)
    from c a have z: "filter isTurnCycle ks = []" "started s"
      by (auto simp: cycleOK_def)
    from z(1) have nk: "\<forall>x \<in> set ks. \<not> isTurnCycle x"
      by (simp add: filter_empty_conv)
    have "cycleOK ((marked s n p)\<lparr>acceptSelection := False\<rparr>) (ks @ [UserTurn_replaced]) (Some p)"
      unfolding cycleOK_replace [OF nk]
      using z a by (simp add: cycleOK_def isTurnCycle_simps marked_def)
    with BUTTON_CLICK h pl acc a show ?thesis
      by (auto simp: onEvent_def)
  next
    fix n p
    assume pl: "places s user b n p"
      and h: "handleButtonClick s user b =
                 ((marked s n p)\<lparr>acceptSelection := False\<rparr>, [], Some TypeError)"
    from pl have a: "acceptSelection s" "currentPlayerIndex s = Some p"
      "gameBoardMessageDescriptor s \<noteq> None"
      by (simp_all add: places_def)
    from c a have z: "filter isTurnCycle ks = []" "started s"
      by (auto simp: cycleOK_def)
    from z(1) have nk: "\<forall>x \<in> set ks. \<not> isTurnCycle x"
      by (auto simp: filter_empty_conv)
    from c nk z a have "cycleOK ((marked s n p)\<lparr>acceptSelection := False\<rparr>) ks (Some p)"
      by (auto simp: cycleOK_def isTurnCycle_simps marked_def)
    with BUTTON_CLICK h pl acc a show ?thesis
      by (auto simp: onEvent_def)
  qed
qed

lemma lastMover_event:
  "lastMover c (Event e) prev =
     (case e of
        BUTTON_CLICK user b \<Rightarrow>
          if accepted (state c) user b then currentPlayerIndex (state c) else prev
      | _ \<Rightarrow> prev)"
  by (cases e) (simp_all add: lastMover_def acceptedInput_def)

lemma lastMover_other:
  "lastMover c (Resolve n md coin) prev = prev" "lastMover c (Reject n) prev = prev"
  "lastMover c (Timeout n) prev = prev" "lastMover c Restore prev = prev"
  by (simp_all add: lastMover_def acceptedInput_def)

lemma inv_step:
  assumes si: "stateInv (state c)" and ci: "cycleInv c prev"
  shows "stateInv (state (step c i)) \<and> cycleInv (step c i) (lastMover c i prev)"
proof (cases i)
  case (Event e)
  have st: "step c (Event e) = absorb c (pending c) (onEvent (state c) e)"
    by (simp add: step_def)
  have cs: "conts (step c (Event e))
      = conts c @ map snd (calls (fst (snd (onEvent (state c) e))))"
    unfolding st conts_absorb by (simp add: conts_def)
  from si ci cycleOK_event [OF si, of "conts c" prev e] show ?thesis
    unfolding Event lastMover_event cycleInv_def cs
    by (simp add: st state_absorb stateInv_onEvent)
next
  case (Resolve n md coin)
  show ?thesis
  proof (cases "n < length (pending c)")
    case False
    with si ci Resolve show ?thesis
      by (simp add: step_def lastMover_other)
  next
    case True
    let ?k = "conts c ! n"
    let ?out = "resume ?k md coin (state c)"
    from True have k: "snd (pending c ! n) = ?k" and n: "n < length (conts c)"
      by (simp_all add: conts_def)
    have st: "step c (Resolve n md coin) = absorb c (dropAt n (pending c)) ?out"
      using True k by (simp add: step_def)
    have cs: "conts (step c (Resolve n md coin))
        = dropAt n (conts c) @ map snd (calls (fst (snd ?out)))"
      unfolding st conts_absorb by (simp add: map_dropAt conts_def)
    have "cycleOK (fst ?out) (dropAt n (conts c) @ map snd (calls (fst (snd ?out)))) prev"
    proof (cases "isTurnCycle ?k")
      case True
      from ci show ?thesis
        unfolding cycleInv_def by (rule cycleOK_resume_cycle [OF si _ n True])
    next
      case False
      from ci show ?thesis
        unfolding cycleInv_def
        by (rule cycleOK_weakOutcome [OF _ weak_resume [OF False] set_dropAt filter_dropAt_le])
    qed
    with si show ?thesis
      unfolding Resolve lastMover_other cycleInv_def cs
      by (simp add: st state_absorb stateInv_resume)
  qed
next
  case (Reject n)
  have w: "weakOutcome (state c) (state c, [], None)"
    by (simp add: weakOutcome_def)
  from ci have "cycleOK (state c) (dropAt n (conts c) @ []) prev"
    unfolding cycleInv_def
    using cycleOK_weakOutcome [OF _ w set_dropAt filter_dropAt_le, of "conts c" prev n]
    by simp
  with si Reject show ?thesis
    by (simp add: step_def lastMover_other cycleInv_def conts_def map_dropAt)
next
  case (Timeout n)
  have w: "weakOutcome (state c) (state c, [Call r Done], None)" for r
    by (simp add: weakOutcome_def isTurnCycle_simps)
  from ci have "cycleOK (state c) (conts c @ [Done]) prev"
    unfolding cycleInv_def
    using cycleOK_weakOutcome [OF _ w, of "conts c" prev "conts c"]
    by simp
  with si ci Timeout show ?thesis
    by (simp add: step_def lastMover_other cycleInv_def conts_def)
next
  case Restore
  have w: "weakOutcome (state c) (state c, [], None)"
    by (simp add: weakOutcome_def)
  from ci have "cycleOK (state c) ([] @ []) prev"
    unfolding cycleInv_def
    using cycleOK_weakOutcome [OF _ w, of "conts c" prev "[]"]
    by simp
  with si ci Restore show ?thesis
    by (simp add: step_def lastMover_other cycleInv_def conts_def destroy_def initialize_def)
qed

subsection \<open>Every run of a new session\<close>

lemma stateInv_fresh: "stateInv (freshState icons chan)"
  by (simp add: stateInv_def freshState_def board3_def validIndex_def occupiedCount_def
      isDefined_def)

lemma cycleInv_new: "cycleInv (newSession icons chan) None"
  by (simp add: cycleInv_def cycleOK_def newSession_def conts_def freshState_def nextOK_def)

lemma inv_run:
  assumes "stateInv (state c)" "cycleInv c prev"
  shows "stateInv (state (run c ins)) \<and> (\<exists>prev'. cycleInv (run c ins) prev')"
  using assms
proof (induction ins arbitrary: c prev)
  case Nil
  then show ?case by (auto simp: run_def)
next
  case (Cons i ins)
  from inv_step [OF Cons.prems, of i]
  have "stateInv (state (step c i))" "cycleInv (step c i) (lastMover c i prev)"
    by simp_all
  from Cons.IH [OF this] show ?case
    by (simp add: run_def)
qed

lemma reachable_inv:
  "stateInv (state (run (newSession icons chan) ins))"
  "\<exists>prev. cycleInv (run (newSession icons chan) ins) prev"
  using inv_run [of "newSession icons chan" None ins] stateInv_fresh [of icons chan]
    cycleInv_new [of icons chan]
  by (simp_all add: newSession_def)

lemma altFrom_step:
  assumes "nextOK prev s" "altFrom (Some p) ms" "currentPlayerIndex s = Some p"
  shows "altFrom prev (currentPlayerIndex s # ms)"
  using assms
  by (cases prev) (simp_all add: altFrom_def nextOK_def)

lemma movers_altFrom:
  assumes "stateInv (state c)" "cycleInv c prev"
  shows "altFrom prev (movers c ins)"
  using assms
proof (induction ins arbitrary: c prev)
  case Nil
  then show ?case by (cases prev) (simp_all add: altFrom_def)
next
  case (Cons i ins)
  from inv_step [OF Cons.prems, of i]
  have s: "stateInv (state (step c i))" "cycleInv (step c i) (lastMover c i prev)"
    by simp_all
  note ih = Cons.IH [OF s]
  show ?case
  proof (cases "acceptedInput c i")
    case False
    with ih show ?thesis
      by (simp add: lastMover_def)
  next
    case True
    then obtain user b where i: "i = Event (BUTTON_CLICK user b)" and a: "accepted (state c) user b"
      by (auto simp: acceptedInput_def split: input.splits GameEvent.splits)
    from a accepted_places [OF Cons.prems(1), of user b]
    obtain n p where pl: "places (state c) user b n p"
      by auto
    then have p: "currentPlayerIndex (state c) = Some p" "acceptSelection (state c)"
      "\<not> stale (state c)"
      by (simp_all add: places_def)
    with Cons.prems(2) have nx: "nextOK prev (state c)"
      by (simp add: cycleInv_def cycleOK_def)
    from ih True p have "altFrom (Some p) (movers (step c i) ins)"
      by (simp add: lastMover_def)
    from altFrom_step [OF nx this p(1)] True show ?thesis
      by simp
  qed
qed

lemma movers_alternating: "alternating (movers (newSession icons chan) ins)"
  using movers_altFrom [of "newSession icons chan" None ins] stateInv_fresh [of icons chan]
    cycleInv_new [of icons chan]
  by (simp add: newSession_def altFrom_def)

subsection \<open>The example game\<close>

lemma afterFirstMove_value:
  "afterFirstMove =
     (freshState (Some ''X'', Some ''O'') ''chan'')
       \<lparr>started := True,
        gameBoardMessageDescriptor := Some (descriptor ''board''),
        currentPlayerIndex := Some 0,
        lastTurnMessageId := Some ''turn2'',
        acceptSelection := True,
        possibleTurnsCount := 8,
        players := [alice, bob],
        boardStates := [[None, None, None], [None, Some 1, None], [None, None, None]]\<rparr>"
  by code_simp

lemma afterOpening_value:
  "afterOpening =
     (freshState (Some ''X'', Some ''O'') ''chan'')
       \<lparr>started := True,
        gameBoardMessageDescriptor := Some (descriptor ''board''),
        currentPlayerIndex := Some 1,
        lastTurnMessageId := Some ''turn1'',
        acceptSelection := True,
        players := [alice, bob]\<rparr>"
  by code_simp

lemma movers_example:
  "movers (newSession (Some ''X'', Some ''O'') ''chan'') (firstMove @ [Event (BUTTON_CLICK alice ''0'')])
     = [Some 1, Some 0]"
  by code_simp

subsection \<open>Cells and remaining cells\<close>

lemma occupiedCount_le:
  assumes "board3 s"
  shows "occupiedCount (boardStates s) \<le> 9"
proof -
  from assms obtain a1 a2 a3 b1 b2 b3 c1 c2 c3 where
    b: "boardStates s = [[a1, a2, a3], [b1, b2, b3], [c1, c2, c3]]"
    by (rule board3_shape)
  have "cnt v \<le> 1" for v
    by (simp add: cnt_def)
  from this [of a1] this [of a2] this [of a3] this [of b1] this [of b2] this [of b3]
    this [of c1] this [of c2] this [of c3]
  show ?thesis
    unfolding b occupiedCount3 by linarith
qed

lemma considered_currentPlayer:
  assumes si: "stateInv s" and c: "cycleOK s ks prev"
    and g: "\<not> stale s" "gameBoardMessageDescriptor s \<noteq> None"
  shows "\<exists>pl. currentPlayer s = Some pl"
proof -
  from c g(2) have st: "started s"
    by (auto simp: cycleOK_def)
  with si g have l: "length (players s) = 2" and v: "validIndex (currentPlayerIndex s)"
    and n: "currentPlayerIndex s \<noteq> None"
    by (simp_all add: stateInv_def)
  from v n have "currentPlayerIndex s = Some 0 \<or> currentPlayerIndex s = Some 1"
    by (simp add: validIndex_def)
  with l show ?thesis
    by (auto simp: currentPlayer_def js_get_def)
qed

lemma click_effect:
  assumes si: "stateInv s"
  shows "(accepted s user b \<longrightarrow>
            possibleTurnsCount (fst (handleButtonClick s user b)) = possibleTurnsCount s - 1
            \<and> (\<exists>n p. parseInt b = Some n \<and> 0 \<le> n \<and> n \<le> 8 \<and> currentPlayerIndex s = Some p
                  \<and> occupant (boardStates s) n = None
                  \<and> occupant (boardStates (fst (handleButtonClick s user b))) n = Some p
                  \<and> (\<forall>m. 0 \<le> m \<and> m \<le> 8 \<and> m \<noteq> n \<longrightarrow>
                        occupant (boardStates (fst (handleButtonClick s user b))) m
                          = occupant (boardStates s) m)))
       \<and> (\<not> accepted s user b \<longrightarrow> fst (handleButtonClick s user b) = s)"
proof -
  have b3: "board3 s" using si by (rule stateInv_board3)
  have m: "places s user b n p \<Longrightarrow>
      possibleTurnsCount (marked s n p) = possibleTurnsCount s - 1
      \<and> parseInt b = Some n \<and> 0 \<le> n \<and> n \<le> 8 \<and> currentPlayerIndex s = Some p
      \<and> occupant (boardStates s) n = None
      \<and> occupant (boardStates (marked s n p)) n = Some p
      \<and> (\<forall>m. 0 \<le> m \<and> m \<le> 8 \<and> m \<noteq> n \<longrightarrow>
            occupant (boardStates (marked s n p)) m = occupant (boardStates s) m)" for n p
  proof -
    assume pl: "places s user b n p"
    then have n: "0 \<le> n" "n \<le> 8"
      by (simp_all add: places_def)
    from pl place_occupant [OF b3 n, of "Some p"] place_others [OF b3 n, of _ "Some p"]
    show ?thesis
      by (simp add: places_def marked_def)
  qed
  note acc = accepted_places [OF si, of user b]
  from handleButtonClick_shape [OF si, of user b] show ?thesis
  proof (elim disjE conjE exE)
    fix effects err
    assume "handleButtonClick s user b = (s, effects, err)" "\<forall>n p. \<not> places s user b n p"
    with acc show ?thesis by simp
  next
    fix n p winRow
    assume pl: "places s user b n p"
      and h: "handleButtonClick s user b =
                 ((marked s n p)\<lparr>stale := True\<rparr>,
                  [Call (DeleteMessage (channelId s) (lastTurnMessageId s)) (Win_retracted winRow)],
                  None)"
    from m [OF pl] pl acc show ?thesis
      unfolding h by auto
  next
    fix n p button md
    assume pl: "places s user b n p"
      and h: "handleButtonClick s user b =
                 ((marked s n p)\<lparr>acceptSelection := False\<rparr>,
                  [Call (ReplaceControl (channelId s) (md_messageId md) (toString n) button)
                     UserTurn_replaced],
                  None)"
    from m [OF pl] pl acc show ?thesis
      unfolding h by auto
  next
    fix n p
    assume pl: "places s user b n p"
      and h: "handleButtonClick s user b =
                 ((marked s n p)\<lparr>acceptSelection := False\<rparr>, [], Some TypeError)"
    from m [OF pl] pl acc show ?thesis
      unfolding h by auto
  qed
qed

text \<open>
  C4. In every state a new session can reach, whatever the events, completions,
  failures, timers and restorations and their order, the remaining cells plus the
  occupied cells are the square of the board size, and the remaining cells are not
  negative. A click there is either accepted (it counts the remaining cells down), and
  then it counts them down by exactly one and writes the current player to exactly one
  cell of the nine, which was empty, all others staying as they were; or it leaves the
  whole state unchanged.
\<close>

theorem session_cell_accounting:
  assumes "s = state (run (newSession icons chan) ins)"
  shows "possibleTurnsCount s + int (occupiedCount (boardStates s)) = gameSize s ^ 2
       \<and> 0 \<le> possibleTurnsCount s
       \<and> (\<forall>user b.
            (accepted s user b \<longrightarrow>
               possibleTurnsCount (fst (handleButtonClick s user b)) = possibleTurnsCount s - 1
               \<and> (\<exists>n p. parseInt b = Some n \<and> 0 \<le> n \<and> n \<le> 8 \<and> currentPlayerIndex s = Some p
                     \<and> occupant (boardStates s) n = None
                     \<and> occupant (boardStates (fst (handleButtonClick s user b))) n = Some p
                     \<and> (\<forall>m. 0 \<le> m \<and> m \<le> 8 \<and> m \<noteq> n \<longrightarrow>
                           occupant (boardStates (fst (handleButtonClick s user b))) m
                             = occupant (boardStates s) m)))
            \<and> (\<not> accepted s user b \<longrightarrow> fst (handleButtonClick s user b) = s))"
proof -
  have si: "stateInv s"
    unfolding assms by (rule reachable_inv)
  then have b3: "board3 s" by (rule stateInv_board3)
  from si have c: "possibleTurnsCount s + int (occupiedCount (boardStates s)) = 9"
    by (simp add: stateInv_def)
  from b3 have g: "gameSize s = 3"
    by (simp add: board3_def)
  from c occupiedCount_le [OF b3] have "0 \<le> possibleTurnsCount s"
    by linarith
  with c g click_effect [OF si] show ?thesis
    by simp
qed

theorem session_cell_accounting_witness:
  "afterOpening = state (run (newSession (Some ''X'', Some ''O'') ''chan'') gameOpening)
   \<and> possibleTurnsCount afterOpening = 9
   \<and> accepted afterOpening bob ''4''
   \<and> possibleTurnsCount (fst (handleButtonClick afterOpening bob ''4'')) = 8
   \<and> occupant (boardStates (fst (handleButtonClick afterOpening bob ''4''))) 4 = Some 1"
proof -
  have e: "possibleTurnsCount afterOpening = 9" "accepted afterOpening bob ''4''"
    "parseInt ''4'' = Some 4" "currentPlayerIndex afterOpening = Some 1"
    by code_simp+
  from session_cell_accounting [OF afterOpening_def]
  have "accepted afterOpening bob ''4'' \<longrightarrow>
          possibleTurnsCount (fst (handleButtonClick afterOpening bob ''4''))
            = possibleTurnsCount afterOpening - 1
          \<and> (\<exists>n p. parseInt ''4'' = Some n \<and> 0 \<le> n \<and> n \<le> 8
                \<and> currentPlayerIndex afterOpening = Some p
                \<and> occupant (boardStates afterOpening) n = None
                \<and> occupant (boardStates (fst (handleButtonClick afterOpening bob ''4''))) n
                    = Some p
                \<and> (\<forall>m. 0 \<le> m \<and> m \<le> 8 \<and> m \<noteq> n \<longrightarrow>
                      occupant (boardStates (fst (handleButtonClick afterOpening bob ''4''))) m
                        = occupant (boardStates afterOpening) m))"
    by blast
  with e have "possibleTurnsCount (fst (handleButtonClick afterOpening bob ''4'')) = 8"
    "occupant (boardStates (fst (handleButtonClick afterOpening bob ''4''))) 4 = Some 1"
    by auto
  with e afterOpening_def show ?thesis
    by blast
qed

subsection \<open>Clicks that are turned away\<close>

text \<open>
  C3. With the board size 3 the constructor fixes: a click is not considered (nothing
  changes, nothing is issued, nothing is thrown) when the session is stale, or the
  control identity parses to no number from 0 up to but excluding the square of the
  board size, or there is no board message. A considered click of a user other than the
  current player, or of the current player while no selection is awaited, sends the
  matching notice, whose callback sets a timer that retracts it after 3000
  milliseconds, and changes no field. A considered click of the current player on a
  cell that holds a mark writes one line to the diagnostic log, issues no request and
  changes no field. In every state a new session can reach, a considered click finds a
  player at \<open>currentPlayerIndex\<close>.
\<close>

theorem handleButtonClick_rejections:
  assumes "gameSize s = 3"
  shows "(stale s \<or> (\<forall>n. parseInt b = Some n \<longrightarrow> n < 0 \<or> gameSize s ^ 2 \<le> n)
            \<or> gameBoardMessageDescriptor s = None
          \<longrightarrow> handleButtonClick s user b = (s, [], None))
       \<and> (\<forall>n pl. \<not> stale s \<and> parseInt b = Some n \<and> 0 \<le> n \<and> n < gameSize s ^ 2
                  \<and> gameBoardMessageDescriptor s \<noteq> None \<and> currentPlayer s = Some pl \<longrightarrow>
             (user_id user \<noteq> user_id pl \<longrightarrow>
                handleButtonClick s user b =
                  (s, [Call (SendMessage (notYourTurnText (user_id user)) (channelId s) None)
                         Notice_sent], None))
           \<and> (user_id user = user_id pl \<and> \<not> acceptSelection s \<longrightarrow>
                handleButtonClick s user b =
                  (s, [Call (SendMessage (alreadyChoseText (user_id user)) (channelId s) None)
                         Notice_sent], None))
           \<and> (user_id user = user_id pl \<and> acceptSelection s
                \<and> (\<exists>q. cell (boardStates s) (n div gameSize s) (n - n div gameSize s * gameSize s)
                          = Inr (Some q)) \<longrightarrow>
                handleButtonClick s user b = (s, [Warn wrongTurnText], None)))
       \<and> resume Notice_sent md coin s' =
           (s', [SetTimeout (DeleteMessage (md_channelId md) (Some (md_messageId md))) 3000], None)
       \<and> (\<forall>icons chan ins.
             \<not> stale (state (run (newSession icons chan) ins))
             \<and> gameBoardMessageDescriptor (state (run (newSession icons chan) ins)) \<noteq> None \<longrightarrow>
             currentPlayer (state (run (newSession icons chan) ins)) \<noteq> None)"
proof (intro conjI allI impI)
  assume "stale s \<or> (\<forall>n. parseInt b = Some n \<longrightarrow> n < 0 \<or> gameSize s ^ 2 \<le> n)
            \<or> gameBoardMessageDescriptor s = None"
  with assms show "handleButtonClick s user b = (s, [], None)"
    by (auto simp: handleButtonClick_def Let_def split: option.splits)
next
  fix n pl
  assume "\<not> stale s \<and> parseInt b = Some n \<and> 0 \<le> n \<and> n < gameSize s ^ 2
                  \<and> gameBoardMessageDescriptor s \<noteq> None \<and> currentPlayer s = Some pl"
    and "user_id user \<noteq> user_id pl"
  with assms show "handleButtonClick s user b =
                  (s, [Call (SendMessage (notYourTurnText (user_id user)) (channelId s) None)
                         Notice_sent], None)"
    by (simp add: handleButtonClick_def Let_def)
next
  fix n pl
  assume "\<not> stale s \<and> parseInt b = Some n \<and> 0 \<le> n \<and> n < gameSize s ^ 2
                  \<and> gameBoardMessageDescriptor s \<noteq> None \<and> currentPlayer s = Some pl"
    and "user_id user = user_id pl \<and> \<not> acceptSelection s"
  with assms show "handleButtonClick s user b =
                  (s, [Call (SendMessage (alreadyChoseText (user_id user)) (channelId s) None)
                         Notice_sent], None)"
    by (simp add: handleButtonClick_def Let_def)
next
  fix n pl
  assume g: "\<not> stale s \<and> parseInt b = Some n \<and> 0 \<le> n \<and> n < gameSize s ^ 2
                  \<and> gameBoardMessageDescriptor s \<noteq> None \<and> currentPlayer s = Some pl"
    and u: "user_id user = user_id pl \<and> acceptSelection s
                \<and> (\<exists>q. cell (boardStates s) (n div gameSize s) (n - n div gameSize s * gameSize s)
                          = Inr (Some q))"
  from g u assms have "handleButtonClick s user b = handleUserTurn s n"
    by (simp add: handleButtonClick_def Let_def)
  also from u assms have "\<dots> = (s, [Warn wrongTurnText], None)"
    by (auto simp: handleUserTurn_def coord3)
  finally show "handleButtonClick s user b = (s, [Warn wrongTurnText], None)" .
next
  show "resume Notice_sent md coin s' =
           (s', [SetTimeout (DeleteMessage (md_channelId md) (Some (md_messageId md))) 3000], None)"
    by (simp add: resume_def noticeSent_def)
next
  fix icons chan ins
  assume g: "\<not> stale (state (run (newSession icons chan) ins))
             \<and> gameBoardMessageDescriptor (state (run (newSession icons chan) ins)) \<noteq> None"
  from reachable_inv(2) [of icons chan ins] obtain prev where
    "cycleOK (state (run (newSession icons chan) ins)) (conts (run (newSession icons chan) ins)) prev"
    by (auto simp: cycleInv_def)
  from considered_currentPlayer [OF reachable_inv(1) this] g
  show "currentPlayer (state (run (newSession icons chan) ins)) \<noteq> None"
    by auto
qed

theorem handleButtonClick_rejections_witness:
  "gameSize afterFirstMove = 3
   \<and> handleButtonClick afterFirstMove bob ''0''
       = (afterFirstMove,
          [Call (SendMessage (notYourTurnText ''bob'') ''chan'' None) Notice_sent], None)
   \<and> handleButtonClick afterFirstMove alice ''4'' = (afterFirstMove, [Warn wrongTurnText], None)
   \<and> handleButtonClick afterFirstMove alice ''9'' = (afterFirstMove, [], None)"
proof -
  have e: "gameSize afterFirstMove = 3" "\<not> stale afterFirstMove"
    "parseInt ''0'' = Some 0" "parseInt ''4'' = Some 4" "parseInt ''9'' = Some 9"
    "gameBoardMessageDescriptor afterFirstMove \<noteq> None"
    "currentPlayer afterFirstMove = Some alice" "acceptSelection afterFirstMove"
    "user_id alice = ''alice''" "channelId afterFirstMove = ''chan''" "user_id bob = ''bob''"
    "cell (boardStates afterFirstMove) 1 1 = Inr (Some 1)"
    by (simp_all add: afterFirstMove_value) code_simp+
  from handleButtonClick_rejections [OF e(1), of "''0''" bob]
    handleButtonClick_rejections [OF e(1), of "''4''" alice]
    handleButtonClick_rejections [OF e(1), of "''9''" alice]
  show ?thesis
    by (simp add: e)
qed

subsection \<open>Starting, and what only the turn message sets\<close>

lemma buildButton_empty:
  assumes "cell (boardStates s) r c = Inr None"
  shows "\<exists>button. buildButton s r c dis = Inr button"
  using assms
  by (simp add: buildButton_def getCellIcon_def)

lemma buildButtons_row:
  assumes g: "gameSize s = 3"
    and b: "\<exists>button. buildButton s r 0 dis = Inr button"
      "\<exists>button. buildButton s r 1 dis = Inr button"
      "\<exists>button. buildButton s r 2 dis = Inr button"
  shows "\<exists>buttons. buildButtons s r 0 dis = Inr buttons"
proof -
  have b3: "buildButtons s r 3 dis = Inr []"
    by (subst buildButtons.simps) (simp add: g)
  from b(3) have b2: "\<exists>buttons. buildButtons s r 2 dis = Inr buttons"
    by (subst buildButtons.simps) (auto simp: g b3)
  with b(2) have b1: "\<exists>buttons. buildButtons s r 1 dis = Inr buttons"
    by (subst buildButtons.simps) (auto simp: g)
  with b(1) show ?thesis
    by (subst buildButtons.simps) (auto simp: g)
qed

lemma buildTicTacToe_ok:
  assumes b3: "board3 s"
    and v: "\<forall>row \<in> set (boardStates s). \<forall>x \<in> set row. x = None"
  shows "\<exists>board. buildTicTacToe s dis = Inr board"
proof -
  from b3 obtain a1 a2 a3 b1 b2 b3 c1 c2 c3 where
    b: "boardStates s = [[a1, a2, a3], [b1, b2, b3], [c1, c2, c3]]" and g: "gameSize s = 3"
    by (rule board3_shape)
  from v have va: "a1 = None" "a2 = None" "a3 = None" "b1 = None" "b2 = None" "b3 = None"
    "c1 = None" "c2 = None" "c3 = None"
    by (simp_all add: b)
  have c: "cell (boardStates s) 0 0 = Inr None" "cell (boardStates s) 0 1 = Inr None"
    "cell (boardStates s) 0 2 = Inr None" "cell (boardStates s) 1 0 = Inr None"
    "cell (boardStates s) 1 1 = Inr None" "cell (boardStates s) 1 2 = Inr None"
    "cell (boardStates s) 2 0 = Inr None" "cell (boardStates s) 2 1 = Inr None"
    "cell (boardStates s) 2 2 = Inr None"
    by (simp_all add: b cell3 va)
  have r0: "\<exists>buttons. buildButtons s 0 0 dis = Inr buttons"
    by (rule buildButtons_row [OF g buildButton_empty [OF c(1)]
          buildButton_empty [OF c(2)] buildButton_empty [OF c(3)]])
  have r1: "\<exists>buttons. buildButtons s 1 0 dis = Inr buttons"
    by (rule buildButtons_row [OF g buildButton_empty [OF c(4)]
          buildButton_empty [OF c(5)] buildButton_empty [OF c(6)]])
  have r2: "\<exists>buttons. buildButtons s 2 0 dis = Inr buttons"
    by (rule buildButtons_row [OF g buildButton_empty [OF c(7)]
          buildButton_empty [OF c(8)] buildButton_empty [OF c(9)]])
  have q3: "buildRows s 3 dis = Inr []"
    by (subst buildRows.simps) (simp add: g)
  from r2 have q2: "\<exists>rows. buildRows s 2 dis = Inr rows"
    by (subst buildRows.simps) (auto simp: g q3)
  with r1 have q1: "\<exists>rows. buildRows s 1 dis = Inr rows"
    by (subst buildRows.simps) (auto simp: g)
  with r0 show ?thesis
    unfolding buildTicTacToe_def
    by (subst buildRows.simps) (auto simp: g)
qed

lemma startGame_ok:
  assumes "board3 s" "\<forall>row \<in> set (boardStates s). \<forall>x \<in> set row. x = None"
    "players s = [u1, u2]"
  shows "\<exists>text board. startGame s =
           (s\<lparr>started := True\<rparr>,
            [Call (SendMessage text (channelId s)
                     (Some \<lparr>components = Some board, allowedMentions = None\<rparr>))
                  StartGame_boardSent], None)"
proof -
  have "board3 (s\<lparr>started := True\<rparr>)"
    "\<forall>row \<in> set (boardStates (s\<lparr>started := True\<rparr>)). \<forall>x \<in> set row. x = None"
    using assms by (simp_all add: board3_def)
  from buildTicTacToe_ok [OF this, of False] obtain board where
    "buildTicTacToe (s\<lparr>started := True\<rparr>) False = Inr board"
    by auto
  with assms(3) show ?thesis
    by (simp add: startGame_def Let_def iconsText_def js_get_def)
qed

lemma started_handleButtonClick: "started (fst (handleButtonClick s user b)) = started s"
  by (auto simp: handleButtonClick_def handleUserTurn_def renderWinMessage_def Let_def
      split: option.splits sum.splits)


lemma started_onEvent: "started s \<Longrightarrow> started (fst (onEvent s e))"
  by (cases e) (auto simp: onEvent_def handleJoin_def handleLeave_def Let_def
      started_handleButtonClick)


lemma resume_fields:
  "started (fst (resume k md coin s)) = started s"
  "acceptSelection (fst (resume k md coin s)) \<noteq> acceptSelection s \<Longrightarrow> k = TurnNotification_sent"
proof -
  have w: "\<not> isTurnCycle k \<Longrightarrow> started (fst (resume k md coin s)) = started s
      \<and> acceptSelection (fst (resume k md coin s)) = acceptSelection s"
    using weak_resume [of k s md coin]
    by (cases "resume k md coin s") (simp add: weakOutcome_def)
  have c: "isTurnCycle k \<Longrightarrow> started (fst (resume k md coin s)) = started s
      \<and> (k \<noteq> TurnNotification_sent \<longrightarrow>
            acceptSelection (fst (resume k md coin s)) = acceptSelection s)"
  proof -
    assume "isTurnCycle k"
    then consider "k = StartGame_boardSent" | "k = TurnNotification_retracted"
      | "k = TurnNotification_sent" | "k = UserTurn_replaced"
      by (auto simp: isTurnCycle_def)
    then show ?thesis
    proof cases
      case 1
      with sendTurnNotification_shape
        [of "s\<lparr>gameBoardMessageDescriptor := Some md,
               currentPlayerIndex := Some (if coin then 1 else 0)\<rparr>"]
      show ?thesis
        by (auto simp: resume_def startGameBoardSent_def Let_def)
    next
      case 2
      with sendTurnMessage_shape [of s] show ?thesis
        by (auto simp: resume_def)
    next
      case 3
      then show ?thesis
        by (simp add: resume_def turnNotificationSent_def Let_def)
    next
      case 4
      with sendTurnNotification_shape
        [of "s\<lparr>currentPlayerIndex :=
                 (case currentPlayerIndex s of None \<Rightarrow> None | Some i \<Rightarrow> Some (js_rem (i + 1) 2))\<rparr>"]
      show ?thesis
        by (auto simp: resume_def userTurnReplaced_def endGameDraw_def Let_def)
    qed
  qed
  from w c show "started (fst (resume k md coin s)) = started s"
    by blast
  from w c show "acceptSelection (fst (resume k md coin s)) \<noteq> acceptSelection s
      \<Longrightarrow> k = TurnNotification_sent"
    by blast
qed

lemma started_step: "started (state c) \<Longrightarrow> started (state (step c i))"
  by (cases i)
     (simp_all add: step_def state_absorb started_onEvent resume_fields(1) destroy_def
       initialize_def)

lemma starts_started: "started (state c) \<Longrightarrow> starts c ins = 0"
  by (induction ins arbitrary: c) (simp_all add: started_step)

lemma starts_le: "starts c ins \<le> 1"
proof (induction ins arbitrary: c)
  case Nil
  then show ?case by simp
next
  case (Cons i ins)
  show ?case
  proof (cases "\<not> started (state c) \<and> started (state (step c i))")
    case True
    then have "starts (step c i) ins = 0"
      by (simp add: starts_started)
    with True show ?thesis by simp
  next
    case False
    with Cons.IH [of "step c i"] show ?thesis by auto
  qed
qed

lemma started_run: "started (state c) \<Longrightarrow> started (state (run c ins))"
  by (induction ins arbitrary: c) (simp_all add: run_def started_step)

lemma run_Cons: "run c (i # ins) = run (step c i) ins"
  by (simp add: run_def)


subsection \<open>Joining\<close>

lemma join_rejected:
  "started s \<Longrightarrow>
     handleJoin s u = (s, [Call (SendPrivateMessage (user_id u) alreadyStartedText) Done], None)"
  by (simp add: handleJoin_def)

lemma state_step_event: "state (step c (Event e)) = fst (onEvent (state c) e)"
  by (simp add: step_def state_absorb)

lemma conts_step_event:
  "conts (step c (Event e)) = conts c @ map snd (calls (fst (snd (onEvent (state c) e))))"
  by (simp add: step_def conts_absorb) (simp add: conts_def)

lemma run_joins_started:
  "started (state c) \<Longrightarrow> state (run c (joins rest)) = state c"
proof (induction rest arbitrary: c)
  case Nil
  then show ?case by (simp add: joins_def run_def)
next
  case (Cons u rest)
  have s: "state (step c (Event (JOIN u))) = state c"
    using Cons.prems by (simp add: state_step_event onEvent_def join_rejected)
  with Cons.prems Cons.IH [of "step c (Event (JOIN u))"] show ?case
    by (simp add: joins_def run_Cons)
qed

lemma first_join:
  "state (step (newSession icons chan) (Event (JOIN u1)))
     = (freshState icons chan)\<lparr>players := [u1]\<rparr>"
  by (simp add: state_step_event onEvent_def handleJoin_def newSession_def freshState_def Let_def)

lemma second_join:
  assumes "state c = (freshState icons chan)\<lparr>players := [u1]\<rparr>"
  shows "state (step c (Event (JOIN u2)))
           = (freshState icons chan)\<lparr>players := [u1, u2], started := True\<rparr>"
    and "conts (step c (Event (JOIN u2))) = conts c @ [Done, Done, StartGame_boardSent]"
proof -
  let ?s1 = "(freshState icons chan)\<lparr>players := [u1, u2]\<rparr>"
  have "board3 ?s1" "\<forall>row \<in> set (boardStates ?s1). \<forall>x \<in> set row. x = None"
    by (simp_all add: board3_def freshState_def)
  from startGame_ok [OF this, of u1 u2] obtain content board where
    sg: "startGame ?s1 =
           (?s1\<lparr>started := True\<rparr>,
            [Call (SendMessage content (channelId ?s1)
                     (Some \<lparr>components = Some board, allowedMentions = None\<rparr>))
                  StartGame_boardSent], None)"
    by (auto simp: freshState_def)
  have f: "\<not> started (state c)" "\<not> stale (state c)" "players (state c) @ [u2] = [u1, u2]"
    "(state c)\<lparr>players := [u1, u2]\<rparr> = ?s1"
    by (simp_all add: assms freshState_def)
  have h: "handleJoin (state c) u2 =
      (?s1\<lparr>started := True\<rparr>,
       [Call (AddUserToChannel (user_id u2) (channelId ?s1) True) Done,
        Call (SendMessage (startingText (user_id u2)) (channelId ?s1) None) Done,
        Call (SendMessage content (channelId ?s1)
                (Some \<lparr>components = Some board, allowedMentions = None\<rparr>))
             StartGame_boardSent], None)"
    unfolding handleJoin_def using f sg by (simp add: Let_def)
  show "state (step c (Event (JOIN u2)))
           = (freshState icons chan)\<lparr>players := [u1, u2], started := True\<rparr>"
    by (simp add: state_step_event onEvent_def h)
  show "conts (step c (Event (JOIN u2))) = conts c @ [Done, Done, StartGame_boardSent]"
    by (simp add: conts_step_event onEvent_def h)
qed

text \<open>
  C6. When two users join a new session one after the other, the session is not started
  after the first join and is started by the second, which sends the board message
  whose callback begins the game; the players are these two in their order. Along the
  whole sequence of joins the session goes from not started to started exactly once,
  and no run of any session does so more than once. Whatever happens after the second
  join, a further join attempt gets the private notice and leaves the state as it is.
  No state a new session can reach has more than two players.
\<close>

theorem join_starts_once:
  assumes "us = u1 # u2 # rest"
  shows "\<not> started (state (newSession icons chan))
       \<and> \<not> started (state (run (newSession icons chan) (joins [u1])))
       \<and> started (state (run (newSession icons chan) (joins us)))
       \<and> \<not> stale (state (run (newSession icons chan) (joins us)))
       \<and> players (state (run (newSession icons chan) (joins us))) = [u1, u2]
       \<and> StartGame_boardSent \<in> set (conts (run (newSession icons chan) (joins [u1, u2])))
       \<and> starts (newSession icons chan) (joins us) = 1
       \<and> (\<forall>ins u.
            handleJoin (state (run (newSession icons chan) (joins [u1, u2] @ ins))) u
              = (state (run (newSession icons chan) (joins [u1, u2] @ ins)),
                 [Call (SendPrivateMessage (user_id u) alreadyStartedText) Done], None))
       \<and> (\<forall>ins. starts (newSession icons chan) ins \<le> 1)
       \<and> (\<forall>ins. length (players (state (run (newSession icons chan) ins))) \<le> 2)"
proof -
  let ?new = "newSession icons chan"
  let ?c1 = "step ?new (Event (JOIN u1))"
  let ?c2 = "step ?c1 (Event (JOIN u2))"
  have n: "\<not> started (state ?new)"
    by (simp add: newSession_def freshState_def)
  have s1: "state ?c1 = (freshState icons chan)\<lparr>players := [u1]\<rparr>"
    by (rule first_join)
  then have n1: "\<not> started (state ?c1)"
    by (simp add: freshState_def)
  note s2 = second_join [OF s1]
  from s2(1) have st: "started (state ?c2)" "\<not> stale (state ?c2)" "players (state ?c2) = [u1, u2]"
    by (simp_all add: freshState_def)
  have r1: "run ?new (joins [u1]) = ?c1" and r2: "run ?new (joins [u1, u2]) = ?c2"
    by (simp_all add: joins_def run_def)
  have ru: "run ?new (joins us) = run ?c2 (joins rest)"
    by (simp add: assms joins_def run_def)
  have su: "state (run ?new (joins us)) = state ?c2"
    unfolding ru using st(1) by (rule run_joins_started)
  have k: "StartGame_boardSent \<in> set (conts ?c2)"
    by (simp add: s2(2))
  have "starts ?new (joins us) = 1"
    using n n1 st(1) starts_started [OF st(1), of "joins rest"]
    by (simp add: assms joins_def)
  moreover have "handleJoin (state (run ?new (joins [u1, u2] @ ins))) u
              = (state (run ?new (joins [u1, u2] @ ins)),
                 [Call (SendPrivateMessage (user_id u) alreadyStartedText) Done], None)" for ins u
  proof -
    have "run ?new (joins [u1, u2] @ ins) = run ?c2 ins"
      by (simp add: joins_def run_def)
    with started_run [OF st(1), of ins] show ?thesis
      by (simp add: join_rejected)
  qed
  moreover have "length (players (state (run ?new ins))) \<le> 2" for ins
    using reachable_inv(1) [of icons chan ins] by (simp add: stateInv_def)
  ultimately show ?thesis
    using n n1 st su k starts_le [of ?new]
    unfolding r1 r2 by simp
qed

theorem join_starts_once_witness:
  "started (state (run (newSession (Some ''X'', Some ''O'') ''chan'') (joins [alice, bob, carol])))
   \<and> players (state (run (newSession (Some ''X'', Some ''O'') ''chan'') (joins [alice, bob, carol])))
       = [alice, bob]
   \<and> starts (newSession (Some ''X'', Some ''O'') ''chan'') (joins [alice, bob, carol]) = 1"
  using join_starts_once [of "[alice, bob, carol]" alice bob "[carol]" "(Some ''X'', Some ''O'')" "''chan''"]
  by simp

subsection \<open>Turns\<close>

lemma checkForWin_board:
  assumes "board3 s" "boardStates s' = boardStates s" "gameSize s' = gameSize s"
  shows "checkForWin s' = checkForWin s"
proof -
  from assms have "board3 s'"
    by (simp add: board3_def)
  with assms show ?thesis
    by (simp add: checkForWin_find)
qed

text \<open>
  An accepted move after which \<open>checkForWin\<close> finds no line and cells remain, made in a
  state a new session can reach by a player whose icon is defined, asks the host to
  replace the clicked control and leaves the current player as it is; when that request
  completes, the current player index \<open>p\<close> becomes \<open>(p + 1) mod 2\<close>.
\<close>

lemma accepted_move_advances:
  assumes r: "s = state (run (newSession icons chan) ins)"
    and a: "accepted s user b" "s' = fst (handleButtonClick s user b)"
      "checkForWin s' = Inr None" "possibleTurnsCount s' \<noteq> 0"
    and ic: "\<forall>p. currentPlayerIndex s = Some p \<longrightarrow> iconOf (playerIcons s) p \<noteq> None"
  shows "\<exists>p n mid button.
           currentPlayerIndex s = Some p
           \<and> handleButtonClick s user b =
               (s', [Call (ReplaceControl (channelId s) mid (toString n) button)
                       UserTurn_replaced], None)
           \<and> currentPlayerIndex s' = Some p
           \<and> (\<forall>md coin. currentPlayerIndex (fst (resume UserTurn_replaced md coin s'))
                           = Some ((p + 1) mod 2))"
proof -
  have si: "stateInv s"
    unfolding r by (rule reachable_inv)
  note acc = accepted_places [OF si, of user b]
  from handleButtonClick_shape [OF si, of user b] show ?thesis
  proof (elim disjE conjE exE)
    fix effects err
    assume "\<forall>n p. \<not> places s user b n p"
    with a acc show ?thesis by simp
  next
    fix n p winRow
    assume pl: "places s user b n p"
      and w: "checkForWin (marked s n p) = Inr (Some winRow)"
      and h: "handleButtonClick s user b =
                 ((marked s n p)\<lparr>stale := True\<rparr>,
                  [Call (DeleteMessage (channelId s) (lastTurnMessageId s)) (Win_retracted winRow)],
                  None)"
    from pl have n: "0 \<le> n" "n \<le> 8"
      by (simp_all add: places_def)
    have "checkForWin ((marked s n p)\<lparr>stale := True\<rparr>) = checkForWin (marked s n p)"
      by (rule checkForWin_board [OF marked_board3 [OF stateInv_board3 [OF si] n]]) simp_all
    with a w h show ?thesis by auto
  next
    fix n p button md
    assume pl: "places s user b n p"
      and h: "handleButtonClick s user b =
                 ((marked s n p)\<lparr>acceptSelection := False\<rparr>,
                  [Call (ReplaceControl (channelId s) (md_messageId md) (toString n) button)
                     UserTurn_replaced],
                  None)"
    from pl have p: "currentPlayerIndex s = Some p"
      by (simp add: places_def)
    with si have vp: "validIndex (Some p)"
      by (simp add: stateInv_def)
    from a h have s': "s' = (marked s n p)\<lparr>acceptSelection := False\<rparr>"
      by simp
    then have p': "currentPlayerIndex s' = Some p"
      using p by (simp add: marked_def)
    have "currentPlayerIndex (fst (resume UserTurn_replaced md' coin s')) = Some ((p + 1) mod 2)"
      for md' coin
    proof -
      let ?t = "s'\<lparr>currentPlayerIndex := Some ((p + 1) mod 2)\<rparr>"
      from sendTurnNotification_shape [of ?t] obtain effects err where
        "sendTurnNotification ?t = (?t, effects, err)"
        by auto
      moreover from a have "possibleTurnsCount s' \<noteq> 0"
        by blast
      ultimately show ?thesis
        using p' by (simp add: resume_def userTurnReplaced_def Let_def js_rem_flip [OF vp])
    qed
    with p p' h s' show ?thesis
      by auto
  next
    fix n p
    assume "places s user b n p" and "iconOf (playerIcons s) p = None"
    with ic show ?thesis
      by (simp add: places_def)
  qed
qed

text \<open>
  A player whose icon is \<open>undefined\<close>: the accepted move is written to the board and
  counted, \<open>buildButton\<close> throws before \<open>replaceControl\<close> is called, and no request
  is issued.
\<close>

lemma accepted_move_throws:
  assumes si: "stateInv s"
    and a: "accepted s user b" "checkForWin (fst (handleButtonClick s user b)) = Inr None"
    and ic: "currentPlayerIndex s = Some p" "iconOf (playerIcons s) p = None"
  shows "snd (handleButtonClick s user b) = ([], Some TypeError)
         \<and> \<not> acceptSelection (fst (handleButtonClick s user b))
         \<and> currentPlayerIndex (fst (handleButtonClick s user b)) = Some p"
proof -
  note acc = accepted_places [OF si, of user b]
  from handleButtonClick_shape [OF si, of user b] show ?thesis
  proof (elim disjE conjE exE)
    fix effects err
    assume "\<forall>n p. \<not> places s user b n p"
    with a acc show ?thesis by simp
  next
    fix n q winRow
    assume pl: "places s user b n q"
      and w: "checkForWin (marked s n q) = Inr (Some winRow)"
      and h: "handleButtonClick s user b =
                 ((marked s n q)\<lparr>stale := True\<rparr>,
                  [Call (DeleteMessage (channelId s) (lastTurnMessageId s)) (Win_retracted winRow)],
                  None)"
    from pl have n: "0 \<le> n" "n \<le> 8"
      by (simp_all add: places_def)
    have "checkForWin ((marked s n q)\<lparr>stale := True\<rparr>) = checkForWin (marked s n q)"
      by (rule checkForWin_board [OF marked_board3 [OF stateInv_board3 [OF si] n]]) simp_all
    with a w h show ?thesis by auto
  next
    fix n q button md
    assume "places s user b n q" and "iconOf (playerIcons s) q \<noteq> None"
    with ic show ?thesis
      by (simp add: places_def)
  next
    fix n q
    assume pl: "places s user b n q"
      and h: "handleButtonClick s user b =
                 ((marked s n q)\<lparr>acceptSelection := False\<rparr>, [], Some TypeError)"
    from pl ic have "q = p"
      by (simp add: places_def)
    with h ic show ?thesis
      by (simp add: marked_def)
  qed
qed

text \<open>
  While the session is started, no move is awaited and no request of a turn cycle is in
  flight, no input changes any of this, nor the current player: nothing is left that
  would set \<open>acceptSelection\<close> again.
\<close>

lemma click_not_awaited:
  "\<not> acceptSelection s \<Longrightarrow> weakOutcome s (handleButtonClick s user b)"
  by (auto simp: handleButtonClick_def Let_def weakOutcome_def isTurnCycle_simps
      split: option.splits)

lemma event_not_awaited:
  assumes "started s" "\<not> acceptSelection s"
  shows "weakOutcome s (onEvent s e)"
proof (cases e)
  case (JOIN user)
  with assms(1) show ?thesis
    by (simp add: onEvent_def join_rejected weakOutcome_def isTurnCycle_simps)
next
  case (LEAVE user)
  then show ?thesis
    by (simp add: onEvent_def handleLeave_weak)
next
  case (BUTTON_CLICK user b)
  with assms(2) show ?thesis
    by (simp add: onEvent_def click_not_awaited)
next
  case OTHER
  then show ?thesis
    by (simp add: onEvent_def weakOutcome_def)
qed

lemma halted_step:
  assumes h: "halted c"
  shows "halted (step c i) \<and> currentPlayerIndex (state (step c i)) = currentPlayerIndex (state c)"
proof -
  from h have nk: "\<forall>k \<in> set (conts c). \<not> isTurnCycle k"
    by (simp add: halted_def filter_empty_conv)
  have weak: "halted (absorb c rest out)
      \<and> currentPlayerIndex (state (absorb c rest out)) = currentPlayerIndex (state c)"
    if w: "weakOutcome (state c) out" and r: "set rest \<subseteq> set (pending c)" for rest out
  proof -
    obtain s' effects err where o: "out = (s', effects, err)"
      by (cases out) auto
    from r nk have "\<forall>k \<in> set (map snd rest). \<not> isTurnCycle k"
      by (auto simp: conts_def)
    with w h show ?thesis
      unfolding o by (auto simp: halted_def weakOutcome_def state_absorb conts_absorb
          filter_empty_conv)
  qed
  show ?thesis
  proof (cases i)
    case (Event e)
    from h have "weakOutcome (state c) (onEvent (state c) e)"
      by (simp add: halted_def event_not_awaited)
    from weak [OF this, of "pending c"] Event show ?thesis
      by (simp add: step_def)
  next
    case (Resolve n md coin)
    show ?thesis
    proof (cases "n < length (pending c)")
      case True
      then have "snd (pending c ! n) \<in> set (conts c)"
        by (simp add: conts_def)
      with nk have "\<not> isTurnCycle (snd (pending c ! n))"
        by blast
      then have "weakOutcome (state c) (resume (snd (pending c ! n)) md coin (state c))"
        by (rule weak_resume)
      from weak [OF this set_dropAt, of n] True Resolve show ?thesis
        by (simp add: step_def)
    next
      case False
      with h Resolve show ?thesis
        by (simp add: step_def)
    qed
  next
    case (Reject n)
    from nk set_dropAt [of n "pending c"]
    have "\<forall>k \<in> set (map snd (dropAt n (pending c))). \<not> isTurnCycle k"
      by (auto simp: conts_def)
    with h Reject show ?thesis
      by (simp add: step_def halted_def conts_def filter_empty_conv)
  next
    case (Timeout n)
    with h show ?thesis
      by (simp add: step_def halted_def conts_def isTurnCycle_simps)
  next
    case Restore
    with h show ?thesis
      by (simp add: step_def halted_def conts_def destroy_def initialize_def)
  qed
qed

lemma halted_run:
  "halted c \<Longrightarrow>
     halted (run c ins) \<and> currentPlayerIndex (state (run c ins)) = currentPlayerIndex (state c)"
proof (induction ins arbitrary: c)
  case Nil
  then show ?case by (simp add: run_def)
next
  case (Cons i ins)
  from halted_step [OF Cons.prems, of i] Cons.IH [of "step c i"] show ?case
    by (simp add: run_Cons)
qed

lemma run_append: "run c (xs @ ys) = run (run c xs) ys"
  by (simp add: run_def)

lemma TicTacToe_one_icon: "TicTacToe defaults (Some ''X'') = (Some ''X'', None)"
  by (simp add: TicTacToe_def js_get_def)

text \<open>
  C7. The instance built by \<open>new TicTacToe("X")\<close> has no icon for player 1. Two players
  join, the board and the first turn message are delivered, and the coin makes player 1
  begin. That player's click on the middle cell is an accepted move: it is written to
  the board and counted, completes no line and leaves eight cells. But the handler
  throws before it asks the host to replace the control, with \<open>acceptSelection\<close>
  already false and no request in flight: whatever follows, the current player stays
  player 1 and no move is awaited again, so the index never advances to
  \<open>(1 + 1) mod 2\<close>.
\<close>

theorem turn_stuck_without_icon:
  "playerIcons (state (run (newSession (TicTacToe defaults (Some ''X'')) ''chan'') gameOpening))
     = (Some ''X'', None)
   \<and> currentPlayerIndex
        (state (run (newSession (TicTacToe defaults (Some ''X'')) ''chan'') gameOpening)) = Some 1
   \<and> accepted (state (run (newSession (TicTacToe defaults (Some ''X'')) ''chan'') gameOpening))
        bob ''4''
   \<and> snd (handleButtonClick
            (state (run (newSession (TicTacToe defaults (Some ''X'')) ''chan'') gameOpening))
            bob ''4'') = ([], Some TypeError)
   \<and> checkForWin (state (run (newSession (TicTacToe defaults (Some ''X'')) ''chan'') stuckGame))
       = Inr None
   \<and> possibleTurnsCount
        (state (run (newSession (TicTacToe defaults (Some ''X'')) ''chan'') stuckGame)) = 8
   \<and> occupant
        (boardStates (state (run (newSession (TicTacToe defaults (Some ''X'')) ''chan'') stuckGame)))
        4 = Some 1
   \<and> filter isTurnCycle
        (conts (run (newSession (TicTacToe defaults (Some ''X'')) ''chan'') stuckGame)) = []
   \<and> (\<forall>ins.
        currentPlayerIndex
          (state (run (newSession (TicTacToe defaults (Some ''X'')) ''chan'') (stuckGame @ ins)))
          = Some 1
        \<and> \<not> acceptSelection
             (state (run (newSession (TicTacToe defaults (Some ''X'')) ''chan'') (stuckGame @ ins))))"
proof -
  let ?c = "run (newSession (Some ''X'', None) ''chan'') gameOpening"
  let ?d = "run (newSession (Some ''X'', None) ''chan'') stuckGame"
  have e: "playerIcons (state ?c) = (Some ''X'', None)" "currentPlayerIndex (state ?c) = Some 1"
    "accepted (state ?c) bob ''4''"
    "snd (handleButtonClick (state ?c) bob ''4'') = ([], Some TypeError)"
    by code_simp+
  have f: "checkForWin (state ?d) = Inr None" "possibleTurnsCount (state ?d) = 8"
    "occupant (boardStates (state ?d)) 4 = Some 1" "filter isTurnCycle (conts ?d) = []"
    "started (state ?d)" "\<not> acceptSelection (state ?d)" "currentPlayerIndex (state ?d) = Some 1"
    by code_simp+
  from f have "halted ?d"
    by (simp add: halted_def)
  from halted_run [OF this] f(7)
  have "currentPlayerIndex (state (run ?d ins)) = Some 1 \<and> \<not> acceptSelection (state (run ?d ins))"
    for ins
    by (simp add: halted_def)
  with e f show ?thesis
    unfolding TicTacToe_one_icon run_append by simp
qed




end
